theory Spec2Isabelle
  imports Complex_Main
begin

section \<open>Shared runtime values\<close>

text \<open>
  Python exceptions that the modelled code can raise. A function that can raise returns
  \<open>py_error + 'a\<close>, with \<open>Inl\<close> carrying the exception.
\<close>

datatype py_error = ValueError | TypeError | IndexError | InvalidOperation

text \<open>
  \<open>str.upper()\<close>, on the ASCII letters (a \<open>char\<close> is one byte here).
\<close>

definition upper_char :: "char \<Rightarrow> char" where
  "upper_char c =
     (let n = (of_char c :: nat)
      in if 97 \<le> n \<and> n \<le> 122 then char_of (n - 32) else c)"

definition upper :: "string \<Rightarrow> string" where
  "upper s = map upper_char s"

section \<open>The order state machine (tests/backtesting/test_strategies.py, class Order)\<close>

text \<open>
  \<open>Order.status\<close> only ever holds one of four string constants, assigned by the class
  itself. \<open>order_type\<close> and \<open>side\<close> come from the caller (upper-cased) and stay strings.
  Prices and quantities are Python floats: the state machine only compares them, so
  their type is any type with an order; the ledger also adds, subtracts and multiplies.
  \<open>price\<close>, \<open>trigger_price\<close>, the timestamps and \<open>filled_price\<close> may be \<open>None\<close>.
  \<open>oco_peer\<close> is a reference to another Order object: an address in the object store.
\<close>

datatype status = PENDING | ACTIVE | FILLED | CANCELLED

record ('a, 't) order =
  order_type :: string
  side :: string
  quantity :: 'a
  price :: "'a option"
  trigger_price :: "'a option"
  status :: status
  created_at :: "'t option"
  filled_at :: "'t option"
  filled_price :: "'a option"
  oco_peer :: "nat option"

text \<open>
  The three \<open>print\<close> calls of the class (ACTIVATED, FILLED, CANCELLED), each with the
  timestamp and the order that printed it. The printed lines are the observable history
  of the state machine.
\<close>

datatype 't event = PrintActivated 't nat | PrintFilled 't nat | PrintCancelled 't nat

text \<open>
  The program state the Order methods act on: the store of Order objects (every
  reference held by the program points to an object, so the store is total), the next
  unused address, and what has been printed so far.
\<close>

record ('a, 't) world =
  objs :: "nat \<Rightarrow> ('a, 't) order"
  next_ref :: nat
  stdout :: "'t event list"

definition is_buy :: "('a, 't) order \<Rightarrow> bool" where
  "is_buy self = (side self = ''BUY'')"

definition is_sell :: "('a, 't) order \<Rightarrow> bool" where
  "is_sell self = (side self = ''SELL'')"

definition is_done :: "('a, 't) order \<Rightarrow> bool" where
  "is_done self = (status self = FILLED \<or> status self = CANCELLED)"

text \<open>\<open>Order._validate\<close>: the two \<open>raise ValueError\<close> checks.\<close>

definition Order_validate :: "('a, 't) order \<Rightarrow> py_error + ('a, 't) order" where
  "Order_validate self =
     (if (order_type self = ''LIMIT'' \<or> order_type self = ''STOP_LIMIT'') \<and> price self = None
      then Inl ValueError
      else if order_type self = ''STOP_LIMIT'' \<and> trigger_price self = None
      then Inl ValueError
      else Inr self)"

text \<open>\<open>Order.__init__\<close>: the fields as assigned, then \<open>_validate\<close>.\<close>

definition Order_init ::
  "string \<Rightarrow> string \<Rightarrow> 'a \<Rightarrow> 'a option \<Rightarrow> 'a option \<Rightarrow> py_error + ('a, 't) order" where
  "Order_init otype sd qty pr trig =
     Order_validate
       \<lparr> order_type = upper otype, side = upper sd, quantity = qty, price = pr,
         trigger_price = trig, status = PENDING, created_at = None, filled_at = None,
         filled_price = None, oco_peer = None \<rparr>"

text \<open>
  \<open>link_oco_peer\<close>: two assignments, in the source's order (the second reads the store
  the first has written, which matters when an order is linked to itself).
\<close>

definition link_oco_peer :: "('a, 't) world \<Rightarrow> nat \<Rightarrow> nat \<Rightarrow> ('a, 't) world" where
  "link_oco_peer w self peer =
     (let w1 = w\<lparr>objs := (objs w)(self := (objs w self)\<lparr>oco_peer := Some peer\<rparr>)\<rparr>
      in w1\<lparr>objs := (objs w1)(peer := (objs w1 peer)\<lparr>oco_peer := Some self\<rparr>)\<rparr>)"

text \<open>\<open>Order.cancel\<close>: a no-op on a done order, otherwise CANCELLED and a printed line.\<close>

definition Order_cancel :: "('a, 't) world \<Rightarrow> nat \<Rightarrow> 't \<Rightarrow> ('a, 't) world" where
  "Order_cancel w self ts =
     (if is_done (objs w self) then w
      else w\<lparr>objs := (objs w)(self := (objs w self)\<lparr>status := CANCELLED\<rparr>),
             stdout := stdout w @ [PrintCancelled ts self]\<rparr>)"

text \<open>
  \<open>Order.fill\<close>: guarded by \<open>status == 'FILLED'\<close> only; sets the three fields, prints,
  and cancels the peer when there is one (an Order object is always truthy).
\<close>

definition Order_fill :: "('a, 't) world \<Rightarrow> nat \<Rightarrow> 't \<Rightarrow> 'a \<Rightarrow> ('a, 't) world" where
  "Order_fill w self ts fill_price =
     (if status (objs w self) = FILLED then w
      else
        let w1 = w\<lparr>objs := (objs w)(self := (objs w self)
                      \<lparr>status := FILLED, filled_at := Some ts, filled_price := Some fill_price\<rparr>),
                    stdout := stdout w @ [PrintFilled ts self]\<rparr>
        in case oco_peer (objs w1 self) of
             None \<Rightarrow> w1
           | Some peer \<Rightarrow> Order_cancel w1 peer ts)"

text \<open>
  Comparing a float with an attribute that may be \<open>None\<close> raises \<open>TypeError\<close>.
  \<open>py_ge x y\<close> is \<open>x >= y\<close>, \<open>py_le x y\<close> is \<open>x <= y\<close>.
\<close>

definition py_ge :: "'a::ord \<Rightarrow> 'a option \<Rightarrow> py_error + bool" where
  "py_ge x y = (case y of None \<Rightarrow> Inl TypeError | Some v \<Rightarrow> Inr (v \<le> x))"

definition py_le :: "'a::ord \<Rightarrow> 'a option \<Rightarrow> py_error + bool" where
  "py_le x y = (case y of None \<Rightarrow> Inl TypeError | Some v \<Rightarrow> Inr (x \<le> v))"

text \<open>
  \<open>(a and b) or (c and d)\<close> with Python's short-circuit evaluation: \<open>b\<close> is evaluated
  (and may raise) only when \<open>a\<close> holds, the second disjunct only when the first is false.
\<close>

definition and_or_and ::
  "bool \<Rightarrow> (py_error + bool) \<Rightarrow> bool \<Rightarrow> (py_error + bool) \<Rightarrow> py_error + bool" where
  "and_or_and a b c d =
     (case (if a then b else Inr False) of
        Inl e \<Rightarrow> Inl e
      | Inr first \<Rightarrow> if first then Inr True else (if c then d else Inr False))"

text \<open>The trigger test of \<open>Order.update\<close> (lines 73-74) and its fill test (lines 80-81).\<close>

definition trigger_reached :: "('a::ord, 't) order \<Rightarrow> 'a \<Rightarrow> py_error + bool" where
  "trigger_reached self current_price =
     and_or_and (is_buy self) (py_ge current_price (trigger_price self))
                (is_sell self) (py_le current_price (trigger_price self))"

definition limit_reached :: "('a::ord, 't) order \<Rightarrow> 'a \<Rightarrow> py_error + bool" where
  "limit_reached self current_price =
     and_or_and (is_buy self) (py_le current_price (price self))
                (is_sell self) (py_ge current_price (price self))"

text \<open>\<open>Order.update\<close>, lines 69-70: stamp \<open>created_at\<close> on the first observation.\<close>

definition update_created :: "('a, 't) world \<Rightarrow> nat \<Rightarrow> 't \<Rightarrow> ('a, 't) world" where
  "update_created w self ts =
     (if created_at (objs w self) = None
      then w\<lparr>objs := (objs w)(self := (objs w self)\<lparr>created_at := Some ts\<rparr>)\<rparr>
      else w)"

text \<open>\<open>Order.update\<close>, lines 75-76: the order becomes ACTIVE and says so.\<close>

definition activate :: "('a, 't) world \<Rightarrow> nat \<Rightarrow> 't \<Rightarrow> ('a, 't) world" where
  "activate w self ts =
     w\<lparr>objs := (objs w)(self := (objs w self)\<lparr>status := ACTIVE\<rparr>),
       stdout := stdout w @ [PrintActivated ts self]\<rparr>"

text \<open>\<open>Order.update\<close>, lines 72-76: a pending STOP_LIMIT order becomes ACTIVE.\<close>

definition update_trigger ::
  "('a::ord, 't) world \<Rightarrow> nat \<Rightarrow> 't \<Rightarrow> 'a \<Rightarrow> py_error + ('a, 't) world" where
  "update_trigger w self ts current_price =
     (if order_type (objs w self) = ''STOP_LIMIT'' \<and> status (objs w self) = PENDING
      then case trigger_reached (objs w self) current_price of
             Inl e \<Rightarrow> Inl e
           | Inr hit \<Rightarrow> Inr (if hit then activate w self ts else w)
      else Inr w)"

text \<open>\<open>Order.update\<close>, lines 78-82: an ACTIVE order, or any LIMIT order, may fill.\<close>

definition update_fill ::
  "('a::ord, 't) world \<Rightarrow> nat \<Rightarrow> 't \<Rightarrow> 'a \<Rightarrow> py_error + ('a, 't) world" where
  "update_fill w self ts current_price =
     (let is_active = (status (objs w self) = ACTIVE \<or> order_type (objs w self) = ''LIMIT'')
      in if is_active
         then case limit_reached (objs w self) current_price of
                Inl e \<Rightarrow> Inl e
              | Inr hit \<Rightarrow> Inr (if hit then Order_fill w self ts current_price else w)
         else Inr w)"

text \<open>\<open>Order.update\<close>: the whole method, one observation of a price.\<close>

definition Order_update ::
  "('a::ord, 't) world \<Rightarrow> nat \<Rightarrow> 't \<Rightarrow> 'a \<Rightarrow> py_error + ('a, 't) world" where
  "Order_update w self ts current_price =
     (if is_done (objs w self) then Inr w
      else case update_trigger (update_created w self ts) self ts current_price of
             Inl e \<Rightarrow> Inl e
           | Inr w2 \<Rightarrow> update_fill w2 self ts current_price)"

text \<open>
  What the class keeps true of every order it has constructed: \<open>_validate\<close> passed, and
  only a STOP_LIMIT order is ever ACTIVE (lines 72-75 hold the only assignment of ACTIVE).
  The attributes the checks read are never reassigned.
\<close>

definition well_formed :: "('a, 't) order \<Rightarrow> bool" where
  "well_formed ob \<longleftrightarrow>
     Order_validate ob = Inr ob \<and> (status ob = ACTIVE \<longrightarrow> order_type ob = ''STOP_LIMIT'')"

section \<open>The replay engine (tests/backtesting/test_strategies.py, class Backtester)\<close>

text \<open>One entry of \<open>trade_log\<close>: the dictionary with keys Timestamp, Type and Price.\<close>

record ('a, 't) trade =
  trade_timestamp :: "'t option"
  trade_type :: string
  trade_price :: "'a option"

text \<open>
  The Backtester object. \<open>orders\<close> is the list \<open>_orders\<close>: references into the object
  store, in insertion order.
\<close>

record ('a, 't) backtester =
  initial_cash :: 'a
  cash :: 'a
  position_size :: 'a
  trade_log :: "('a, 't) trade list"
  orders :: "nat list"

text \<open>
  Float literals of the source (\<open>0.0\<close>, \<open>1.0\<close>, \<open>1.05\<close>, \<open>0.98\<close>) are read into the number
  type by a parameter \<open>fl\<close>, given the literal's decimal value.
\<close>

definition Backtester_init :: "(rat \<Rightarrow> 'a) \<Rightarrow> 'a \<Rightarrow> ('a, 't) backtester" where
  "Backtester_init fl ic =
     \<lparr> initial_cash = ic, cash = ic, position_size = fl 0, trade_log = [], orders = [] \<rparr>"

text \<open>Creating an object: it gets the next unused address.\<close>

definition new_object :: "('a, 't) world \<Rightarrow> ('a, 't) order \<Rightarrow> nat \<times> ('a, 't) world" where
  "new_object w ob =
     (next_ref w, w\<lparr>objs := (objs w)(next_ref w := ob), next_ref := Suc (next_ref w)\<rparr>)"

text \<open>\<open>Backtester.place_oco_order\<close>: a LIMIT sell and a STOP_LIMIT sell, linked, appended.\<close>

definition place_oco_order ::
  "('a, 't) world \<times> ('a, 't) backtester \<Rightarrow> 'a \<Rightarrow> 'a \<Rightarrow> 'a \<Rightarrow>
     py_error + ('a, 't) world \<times> ('a, 't) backtester" where
  "place_oco_order s qty take_profit_price stop_loss_price =
     (case s of (w, bt) \<Rightarrow>
        case Order_init ''LIMIT'' ''SELL'' qty (Some take_profit_price) None of
          Inl e \<Rightarrow> Inl e
        | Inr tp_order \<Rightarrow>
            (case new_object w tp_order of (tp, w1) \<Rightarrow>
               case Order_init ''STOP_LIMIT'' ''SELL'' qty (Some stop_loss_price)
                      (Some stop_loss_price) of
                 Inl e \<Rightarrow> Inl e
               | Inr sl_order \<Rightarrow>
                   (case new_object w1 sl_order of (sl, w2) \<Rightarrow>
                      Inr (link_oco_peer w2 tp sl, bt\<lparr>orders := orders bt @ [tp, sl]\<rparr>))))"

text \<open>
  \<open>Backtester._execute_fill\<close>. \<open>filled_price * quantity\<close> raises \<open>TypeError\<close> when
  \<open>filled_price\<close> is \<open>None\<close>; the trade-log entry is appended on every path that returns.
\<close>

definition execute_fill ::
  "('a::{plus,minus,times}, 't) backtester \<Rightarrow> ('a, 't) order \<Rightarrow> py_error + ('a, 't) backtester" where
  "execute_fill bt ord =
     (case (if is_buy ord
            then (case filled_price ord of
                    None \<Rightarrow> Inl TypeError
                  | Some fp \<Rightarrow>
                      Inr (bt\<lparr>cash := cash bt - fp * quantity ord,
                              position_size := position_size bt + quantity ord\<rparr>))
            else if is_sell ord
            then (case filled_price ord of
                    None \<Rightarrow> Inl TypeError
                  | Some fp \<Rightarrow>
                      Inr (bt\<lparr>cash := cash bt + fp * quantity ord,
                              position_size := position_size bt - quantity ord\<rparr>))
            else Inr bt) of
        Inl e \<Rightarrow> Inl e
      | Inr bt1 \<Rightarrow>
          Inr (bt1\<lparr>trade_log := trade_log bt1 @
                 [\<lparr> trade_timestamp = filled_at ord, trade_type = side ord,
                    trade_price = filled_price ord \<rparr>]\<rparr>))"

text \<open>
  The inner loop of \<open>Backtester.run\<close> (lines 151-154): every order of the list, in list
  order, is updated and, when its status is then FILLED, applied to the ledger.
\<close>

fun run_orders ::
  "('a::{ord,plus,minus,times}, 't) world \<times> ('a, 't) backtester \<Rightarrow> nat list \<Rightarrow> 't \<Rightarrow> 'a \<Rightarrow>
     py_error + ('a, 't) world \<times> ('a, 't) backtester" where
  "run_orders s [] ts current_price = Inr s"
| "run_orders s (ord # rest) ts current_price =
     (case Order_update (fst s) ord ts current_price of
        Inl e \<Rightarrow> Inl e
      | Inr w1 \<Rightarrow>
          if status (objs w1 ord) = FILLED
          then (case execute_fill (snd s) (objs w1 ord) of
                  Inl e \<Rightarrow> Inl e
                | Inr bt1 \<Rightarrow> run_orders (w1, bt1) rest ts current_price)
          else run_orders (w1, snd s) rest ts current_price)"

text \<open>
  One iteration of the outer loop (lines 148-156) on one row of the data, a timestamp
  and an execution price: the inner loop, then the done orders leave \<open>_orders\<close>.
\<close>

definition run_tick ::
  "('a::{ord,plus,minus,times}, 't) world \<times> ('a, 't) backtester \<Rightarrow> 't \<times> 'a \<Rightarrow>
     py_error + ('a, 't) world \<times> ('a, 't) backtester" where
  "run_tick s row =
     (case run_orders s (orders (snd s)) (fst row) (snd row) of
        Inl e \<Rightarrow> Inl e
      | Inr s1 \<Rightarrow>
          Inr (fst s1, (snd s1)\<lparr>orders := filter (\<lambda>r. \<not> is_done (objs (fst s1) r))
                                              (orders (snd s1))\<rparr>))"

text \<open>The outer loop (line 147) over the rows, in feed order.\<close>

fun run_loop ::
  "('a::{ord,plus,minus,times}, 't) world \<times> ('a, 't) backtester \<Rightarrow> ('t \<times> 'a) list \<Rightarrow>
     py_error + ('a, 't) world \<times> ('a, 't) backtester" where
  "run_loop s [] = Inr s"
| "run_loop s (row # rows) =
     (case run_tick s row of
        Inl e \<Rightarrow> Inl e
      | Inr s1 \<Rightarrow> run_loop s1 rows)"

text \<open>
  The spec's words for the first step of a tick (section 4.4), as a definition of its own:
  call \<open>observe\<close> on every order of the open set, in the insertion order of the open set,
  each observation starting from the store the previous one left. This is not a
  translation of the source, whose loop is \<open>run_orders\<close>: it only names the orders, their
  order and \<open>Order.update\<close>, and the two are compared in the facts about one tick.
\<close>

fun observe_all ::
  "('a::ord, 't) world \<Rightarrow> nat list \<Rightarrow> 't \<Rightarrow> 'a \<Rightarrow> py_error + ('a, 't) world" where
  "observe_all w [] ts current_price = Inr w"
| "observe_all w (ord # rest) ts current_price =
     (case Order_update w ord ts current_price of
        Inl e \<Rightarrow> Inl e
      | Inr w1 \<Rightarrow> observe_all w1 rest ts current_price)"

text \<open>
  \<open>Backtester.run\<close>: \<open>iloc[0]\<close> raises \<open>IndexError\<close> on empty data; the simulated initial
  buy, the OCO pair at 1.05 and 0.98 times the first price, then the loop over all rows.
\<close>

definition Backtester_run ::
  "(rat \<Rightarrow> 'a) \<Rightarrow> ('a::{ord,plus,minus,times}, 't) world \<times> ('a, 't) backtester \<Rightarrow>
     ('t \<times> 'a) list \<Rightarrow> py_error + ('a, 't) world \<times> ('a, 't) backtester" where
  "Backtester_run fl s data =
     (case data of
        [] \<Rightarrow> Inl IndexError
      | row0 # _ \<Rightarrow>
          let initial_buy_price = snd row0;
              bt1 = (snd s)\<lparr>position_size := fl 1\<rparr>;
              bt2 = bt1\<lparr>cash := cash bt1 - initial_buy_price * position_size bt1\<rparr>;
              tp_price = initial_buy_price * fl (105 / 100);
              sl_price = initial_buy_price * fl (98 / 100)
          in case place_oco_order (fst s, bt2) (fl 1) tp_price sl_price of
               Inl e \<Rightarrow> Inl e
             | Inr s1 \<Rightarrow> run_loop s1 data)"

text \<open>A fresh program state: nothing allocated, nothing printed.\<close>

definition empty_world :: "('a, 't) order \<Rightarrow> ('a, 't) world" where
  "empty_world filler = \<lparr> objs = (\<lambda>_. filler), next_ref = 0, stdout = [] \<rparr>"

section \<open>Decimal values (Python's decimal.Decimal, as the validator uses it)\<close>

text \<open>
  A finite \<open>Decimal\<close> is a signed coefficient and an exponent: \<open>Decimal('0.0015')\<close> is
  coefficient 15, exponent -4, \<open>Decimal('1000')\<close> is coefficient 1000, exponent 0. The
  exponent is part of the value's representation (\<open>quantize\<close> reads it), so it is kept.
  Arithmetic here is exact: the rounding of the default context to 28 significant digits
  is not modelled, nor are NaN, the infinities and the negative zero.
\<close>

datatype decimal = Decimal (coefficient: int) (exponent: int)

text \<open>The coefficient of \<open>d\<close> when written at a smaller or equal exponent \<open>m\<close>.\<close>

definition scaled :: "decimal \<Rightarrow> int \<Rightarrow> int" where
  "scaled d m = coefficient d * 10 ^ nat (exponent d - m)"

definition dec_lt :: "decimal \<Rightarrow> decimal \<Rightarrow> bool" where
  "dec_lt a b = (let m = min (exponent a) (exponent b) in scaled a m < scaled b m)"

definition dec_gt :: "decimal \<Rightarrow> decimal \<Rightarrow> bool" where
  "dec_gt a b = dec_lt b a"

definition dec_ne :: "decimal \<Rightarrow> decimal \<Rightarrow> bool" where
  "dec_ne a b = (let m = min (exponent a) (exponent b) in scaled a m \<noteq> scaled b m)"

text \<open>\<open>a - b\<close> and \<open>a + b\<close>: the result's exponent is the smaller of the two.\<close>

definition dec_sub :: "decimal \<Rightarrow> decimal \<Rightarrow> decimal" where
  "dec_sub a b = (let m = min (exponent a) (exponent b) in Decimal (scaled a m - scaled b m) m)"

definition dec_add :: "decimal \<Rightarrow> decimal \<Rightarrow> decimal" where
  "dec_add a b = (let m = min (exponent a) (exponent b) in Decimal (scaled a m + scaled b m) m)"

text \<open>
  \<open>a % b\<close>: raises \<open>InvalidOperation\<close> when \<open>b\<close> is zero; otherwise the remainder of the
  division truncated towards zero, which has the sign of \<open>a\<close>.
\<close>

definition dec_mod :: "decimal \<Rightarrow> decimal \<Rightarrow> py_error + decimal" where
  "dec_mod a b =
     (if coefficient b = 0 then Inl InvalidOperation
      else let m = min (exponent a) (exponent b); x = scaled a m; y = scaled b m
           in Inr (Decimal (sgn x * (\<bar>x\<bar> mod \<bar>y\<bar>)) m))"

text \<open>
  \<open>a.quantize(b, rounding=ROUND_DOWN)\<close>: \<open>a\<close> rewritten at the exponent of \<open>b\<close>, digits
  beyond it dropped (rounding towards zero). Only the exponent of \<open>b\<close> is read.
\<close>

definition quantize_down :: "decimal \<Rightarrow> decimal \<Rightarrow> decimal" where
  "quantize_down a b =
     (let e = exponent b
      in if e \<le> exponent a then Decimal (scaled a e) e
         else Decimal (sgn (coefficient a) * (\<bar>coefficient a\<bar> div 10 ^ nat (e - exponent a))) e)"

text \<open>The number a \<open>Decimal\<close> stands for; used in statements only.\<close>

definition dec_val :: "decimal \<Rightarrow> rat" where
  "dec_val d = of_int (coefficient d) * 10 powi (exponent d)"

section \<open>The trading-rule validator (src/validation.py, class OrderValidator)\<close>

text \<open>
  The two filters the validator reads, with their fields already parsed by \<open>Decimal(...)\<close>.
  A symbol's entry holds its name and its \<open>filters\<close>, as the dictionary that
  \<open>validate_order_params\<close> builds from them, at the two keys it looks up.
\<close>

record lot_size =
  minQty :: decimal
  maxQty :: decimal
  stepSize :: decimal

record price_filter =
  minPrice :: decimal
  maxPrice :: decimal
  tickSize :: decimal

record symbol_info =
  symbol :: string
  LOT_SIZE :: "lot_size option"
  PRICE_FILTER :: "price_filter option"

text \<open>
  What the validator writes to the log. Each constructor is one \<open>log\<close> call of the source:
  \<^item> \<open>ExchangeInfoUnavailable\<close>: warning "Exchange info not available, skipping validation."
  \<^item> \<open>SymbolUnknown\<close>: error "Symbol not found in exchange info."
  \<^item> \<open>QuantityTooSmall\<close>: error "Quantity is too small."
  \<^item> \<open>QuantityTooLarge\<close>: error "Quantity is too large."
  \<^item> \<open>QuantityStepMismatch\<close>: error "Invalid quantity precision."
  \<^item> \<open>SuggestedQuantity q\<close>: info "A valid quantity might be: q"
  \<^item> \<open>PriceTooLow\<close>: error "Price is too low."
  \<^item> \<open>PriceTooHigh\<close>: error "Price is too high."
  \<^item> \<open>PriceTickMismatch\<close>: error "Invalid price precision (tick size)."
  \<^item> \<open>ParamsValid\<close>: info "Order parameters are valid."
\<close>

datatype validator_log =
    ExchangeInfoUnavailable
  | SymbolUnknown
  | QuantityTooSmall
  | QuantityTooLarge
  | QuantityStepMismatch
  | SuggestedQuantity decimal
  | PriceTooLow
  | PriceTooHigh
  | PriceTickMismatch
  | ParamsValid

text \<open>
  \<open>get_symbol_info\<close>: \<open>exchange_info\<close> is \<open>None\<close> when the fetch failed; otherwise the first
  entry of its symbols with the name asked for. Returns the entry and what was logged.
\<close>

definition get_symbol_info ::
  "symbol_info list option \<Rightarrow> string \<Rightarrow> symbol_info option \<times> validator_log list" where
  "get_symbol_info exchange_info symb =
     (case exchange_info of
        None \<Rightarrow> (None, [ExchangeInfoUnavailable])
      | Some symbols \<Rightarrow> (find (\<lambda>s. symbol s = symb) symbols, []))"

text \<open>
  The quantity checks (lines 57-88) on a LOT_SIZE filter. \<open>qty\<close> is \<open>Decimal(str(quantity))\<close>.
  \<open>Inr None\<close>: the checks pass; \<open>Inr (Some l)\<close>: \<open>return False\<close> after logging \<open>l\<close>.
\<close>

definition check_quantity :: "lot_size \<Rightarrow> decimal \<Rightarrow> py_error + validator_log list option" where
  "check_quantity f qty =
     (let min_qty = minQty f; max_qty = maxQty f; step_size = stepSize f
      in if dec_lt qty min_qty then Inr (Some [QuantityTooSmall])
         else if dec_gt qty max_qty then Inr (Some [QuantityTooLarge])
         else let base_qty = dec_sub qty min_qty
              in case dec_mod base_qty step_size of
                   Inl e \<Rightarrow> Inl e
                 | Inr remainder \<Rightarrow>
                     if dec_ne remainder (Decimal 0 0)
                     then let quantized = quantize_down base_qty step_size;
                              valid_qty = dec_add quantized min_qty
                          in Inr (Some [QuantityStepMismatch, SuggestedQuantity valid_qty])
                     else Inr None)"

text \<open>The price checks (lines 94-114) on a PRICE_FILTER; \<open>p\<close> is \<open>Decimal(str(price))\<close>.\<close>

definition check_price :: "price_filter \<Rightarrow> decimal \<Rightarrow> py_error + validator_log list option" where
  "check_price f p =
     (let min_price = minPrice f; max_price = maxPrice f; tick_size = tickSize f
      in if dec_lt p min_price then Inr (Some [PriceTooLow])
         else if dec_gt p max_price \<and> dec_gt max_price (Decimal 0 0) then Inr (Some [PriceTooHigh])
         else case dec_mod (dec_sub p min_price) tick_size of
                Inl e \<Rightarrow> Inl e
              | Inr remainder \<Rightarrow>
                  if dec_ne remainder (Decimal 0 0) then Inr (Some [PriceTickMismatch]) else Inr None)"

text \<open>
  \<open>validate_order_params\<close>: the returned boolean and the log lines, or the exception that
  propagates. The quantity checks run only when a LOT_SIZE filter is present, the price
  checks only when a price is supplied and a PRICE_FILTER is present.
\<close>

definition validate_order_params ::
  "symbol_info list option \<Rightarrow> string \<Rightarrow> decimal \<Rightarrow> decimal option \<Rightarrow>
     py_error + bool \<times> validator_log list" where
  "validate_order_params exchange_info symb qty price_arg =
     (case get_symbol_info exchange_info symb of
        (None, logged) \<Rightarrow> Inr (False, logged @ [SymbolUnknown])
      | (Some info, logged) \<Rightarrow>
          (case (case LOT_SIZE info of None \<Rightarrow> Inr None | Some f \<Rightarrow> check_quantity f qty) of
             Inl e \<Rightarrow> Inl e
           | Inr (Some l) \<Rightarrow> Inr (False, logged @ l)
           | Inr None \<Rightarrow>
               (case (case price_arg of
                        None \<Rightarrow> Inr None
                      | Some p \<Rightarrow>
                          (case PRICE_FILTER info of
                             None \<Rightarrow> Inr None
                           | Some f \<Rightarrow> check_price f p)) of
                  Inl e \<Rightarrow> Inl e
                | Inr (Some l) \<Rightarrow> Inr (False, logged @ l)
                | Inr None \<Rightarrow> Inr (True, logged @ [ParamsValid]))))"

text \<open>
  Concrete rules. \<open>btc_rule\<close>: quantities from 0.001 to 1000 in steps of 0.001, prices from
  556.8 to 4529764 in ticks of 0.1. \<open>open_rule\<close>: the same quantities, prices from 0.01 in
  ticks of 0.01 with \<open>maxPrice\<close> 0. \<open>coarse_rule\<close>: quantities from 0.005 in steps of 0.005.
\<close>

definition btc_rule :: symbol_info where
  "btc_rule =
     \<lparr> symbol = ''BTCUSDT'',
       LOT_SIZE = Some \<lparr> minQty = Decimal 1 (- 3), maxQty = Decimal 1000 0,
                          stepSize = Decimal 1 (- 3) \<rparr>,
       PRICE_FILTER = Some \<lparr> minPrice = Decimal 5568 (- 1), maxPrice = Decimal 4529764 0,
                              tickSize = Decimal 1 (- 1) \<rparr> \<rparr>"

definition open_rule :: symbol_info where
  "open_rule =
     \<lparr> symbol = ''OPENUSDT'',
       LOT_SIZE = Some \<lparr> minQty = Decimal 1 (- 3), maxQty = Decimal 1000 0,
                          stepSize = Decimal 1 (- 3) \<rparr>,
       PRICE_FILTER = Some \<lparr> minPrice = Decimal 1 (- 2), maxPrice = Decimal 0 0,
                              tickSize = Decimal 1 (- 2) \<rparr> \<rparr>"

definition coarse_rule :: symbol_info where
  "coarse_rule =
     \<lparr> symbol = ''COARSEUSDT'',
       LOT_SIZE = Some \<lparr> minQty = Decimal 5 (- 3), maxQty = Decimal 1000 0,
                          stepSize = Decimal 5 (- 3) \<rparr>,
       PRICE_FILTER = None \<rparr>"

definition exchange_rules :: "symbol_info list option" where
  "exchange_rules = Some [btc_rule, open_rule, coarse_rule]"

section \<open>The OCO placement (src/strategies/oco.py)\<close>













section \<open>A concrete OCO pair\<close>

text \<open>
  The state \<open>place_oco_order(1, 105, 98)\<close> builds from nothing: the take-profit leg (a LIMIT
  sell at 105) at address 0 and the stop-loss leg (a STOP_LIMIT sell with trigger and limit
  98) at address 1, linked to each other. Timestamps are row numbers.
\<close>

definition blank_order :: "(rat, nat) order" where
  "blank_order =
     \<lparr> order_type = [], side = [], quantity = 0, price = None, trigger_price = None,
       status = PENDING, created_at = None, filled_at = None, filled_price = None,
       oco_peer = None \<rparr>"

definition tp_leg :: "(rat, nat) order" where
  "tp_leg =
     \<lparr> order_type = ''LIMIT'', side = ''SELL'', quantity = 1, price = Some 105,
       trigger_price = None, status = PENDING, created_at = None, filled_at = None,
       filled_price = None, oco_peer = Some 1 \<rparr>"

definition sl_leg :: "(rat, nat) order" where
  "sl_leg =
     \<lparr> order_type = ''STOP_LIMIT'', side = ''SELL'', quantity = 1, price = Some 98,
       trigger_price = Some 98, status = PENDING, created_at = None, filled_at = None,
       filled_price = None, oco_peer = Some 0 \<rparr>"

definition pair_world :: "(rat, nat) world" where
  "pair_world = \<lparr> objs = (\<lambda>_. blank_order)(0 := tp_leg, 1 := sl_leg), next_ref = 2, stdout = [] \<rparr>"

text \<open>The Backtester after the simulated initial buy at 100 and \<open>place_oco_order\<close>.\<close>

definition pair_backtester :: "(rat, nat) backtester" where
  "pair_backtester =
     \<lparr> initial_cash = 10000, cash = 9900, position_size = 1, trade_log = [], orders = [0, 1] \<rparr>"

text \<open>
  A pair whose two legs can both fill at one price: the state \<open>place_oco_order(1, 100, 100)\<close>
  builds from nothing, a LIMIT sell at 100 at address 0 and a STOP_LIMIT sell with trigger
  and limit 100 at address 1, and the Backtester holding them.
\<close>

definition tie_world :: "(rat, nat) world" where
  "tie_world =
     \<lparr> objs = (\<lambda>_. blank_order)
         (0 := tp_leg\<lparr>price := Some 100\<rparr>,
          1 := sl_leg\<lparr>price := Some 100, trigger_price := Some 100\<rparr>),
       next_ref = 2, stdout = [] \<rparr>"

section \<open>Facts about decimal values\<close>

text \<open>
  The operations on coefficient and exponent compute what they should on the numbers the
  decimals stand for: comparison, subtraction and addition are exact, and the remainder is
  zero exactly when the dividend is an integer multiple of the divisor.
\<close>

lemma ten_powi_pos: "(0::rat) < 10 powi m"
  by simp

lemma scaled_val:
  assumes "m \<le> exponent d"
  shows "(of_int (scaled d m) :: rat) * 10 powi m = dec_val d"
proof -
  have "(10::rat) ^ nat (exponent d - m) = 10 powi (exponent d - m)"
    using assms by (simp add: power_int_def)
  moreover have "(10::rat) powi (exponent d - m) * 10 powi m = 10 powi (exponent d)"
    by (simp add: power_int_add[symmetric])
  ultimately show ?thesis
    by (simp add: scaled_def dec_val_def mult.assoc)
qed




lemma dec_val_zero [simp]: "dec_val (Decimal 0 e) = 0"
  by (simp add: dec_val_def)



lemma dec_add_val: "dec_val (dec_add a b) = dec_val a + dec_val b"
proof -
  let ?m = "min (exponent a) (exponent b)"
  have a: "dec_val a = of_int (scaled a ?m) * 10 powi ?m" by (simp add: scaled_val)
  have b: "dec_val b = of_int (scaled b ?m) * 10 powi ?m" by (simp add: scaled_val)
  show ?thesis unfolding a b by (simp add: dec_add_def Let_def dec_val_def algebra_simps)
qed




section \<open>Facts about the validator\<close>

lemmas rule_defs = exchange_rules_def btc_rule_def open_rule_def coarse_rule_def
lemmas validate_defs = validate_order_params_def get_symbol_info_def check_quantity_def
  check_price_def dec_lt_def dec_gt_def dec_ne_def dec_sub_def dec_add_def dec_mod_def
  quantize_down_def scaled_def Let_def

lemma scenario_A:
  "validate_order_params exchange_rules ''BTCUSDT'' (Decimal 15 (- 4)) None
     = Inr (False, [QuantityStepMismatch, SuggestedQuantity (Decimal 1 (- 3))])"
  by (simp add: rule_defs validate_defs)

lemma coarse_eval:
  "validate_order_params exchange_rules ''COARSEUSDT'' (Decimal 7 (- 3)) None
     = Inr (False, [QuantityStepMismatch, SuggestedQuantity (Decimal 7 (- 3))])"
  by (simp add: rule_defs validate_defs)

lemma valid_eval:
  "validate_order_params exchange_rules ''BTCUSDT'' (Decimal 2 (- 3)) (Some (Decimal 650005 (- 1)))
     = Inr (True, [ParamsValid])"
  by (simp add: rule_defs validate_defs)







lemma max_price_zero_unbounded:
  "validate_order_params exchange_rules ''OPENUSDT'' (Decimal 2 (- 3)) (Some (Decimal 99999999999 0))
     = Inr (True, [ParamsValid])"
  by (simp add: rule_defs validate_defs)

subsection \<open>Quantity\<close>



text \<open>
  Claim C7 (the code's behaviour where the claim fails). The claim says that the
  suggested quantity is \<open>minQty\<close> plus \<open>q - minQty\<close> floored to a multiple of \<open>stepSize\<close>.
  The code computes it with \<open>quantize(step_size, ROUND_DOWN)\<close>, which drops the digits
  beyond the exponent of \<open>stepSize\<close> and ignores its coefficient. For the step 0.001 of
  Scenario A the two agree (\<open>scenario_A\<close> above: the suggestion is 0.001). For the step
  0.005 and the quantity 0.007 the code suggests 0.007, the rejected quantity itself,
  where the floored value is 0.005, which the validator accepts.
\<close>

theorem suggested_quantity_keeps_off_step_digits:
  "validate_order_params exchange_rules ''COARSEUSDT'' (Decimal 7 (- 3)) None
     = Inr (False, [QuantityStepMismatch, SuggestedQuantity (Decimal 7 (- 3))]) \<and>
   dec_val (Decimal 5 (- 3)) + of_int \<lfloor>(dec_val (Decimal 7 (- 3)) - dec_val (Decimal 5 (- 3))) / dec_val (Decimal 5 (- 3))\<rfloor>
        * dec_val (Decimal 5 (- 3)) = dec_val (Decimal 5 (- 3)) \<and>
   dec_val (Decimal 7 (- 3)) \<noteq> dec_val (Decimal 5 (- 3)) \<and>
   validate_order_params exchange_rules ''COARSEUSDT'' (Decimal 5 (- 3)) None = Inr (True, [ParamsValid])"
  by (simp add: rule_defs validate_defs dec_val_def power_int_minus floor_eq_iff)

subsection \<open>Price\<close>



section \<open>Facts about the OCO placement\<close>





section \<open>Facts about the order state machine\<close>

lemma upper_LIMIT: "upper ''LIMIT'' = ''LIMIT''"
  by (simp add: upper_def upper_char_def)

lemma upper_consts:
  "upper ''SELL'' = ''SELL''" "upper ''STOP_LIMIT'' = ''STOP_LIMIT''"
  by (simp_all add: upper_def upper_char_def)

lemma place_pair:
  "place_oco_order (empty_world blank_order, bt) 1 105 98
     = Inr (pair_world, bt\<lparr>orders := orders bt @ [0, 1]\<rparr>)"
  by (simp add: place_oco_order_def Order_init_def Order_validate_def upper_consts upper_LIMIT
      new_object_def link_oco_peer_def empty_world_def pair_world_def
      tp_leg_def sl_leg_def blank_order_def Let_def fun_eq_iff)

lemma limit_reached_Some:
  "price ob = Some lmt \<Longrightarrow>
   limit_reached ob p = Inr ((is_buy ob \<and> p \<le> lmt) \<or> (is_sell ob \<and> lmt \<le> p))"
  by (auto simp: limit_reached_def and_or_and_def py_le_def py_ge_def is_buy_def is_sell_def)

lemma trigger_reached_Some:
  "trigger_price ob = Some trig \<Longrightarrow>
   trigger_reached ob p = Inr ((is_buy ob \<and> trig \<le> p) \<or> (is_sell ob \<and> p \<le> trig))"
  by (auto simp: trigger_reached_def and_or_and_def py_le_def py_ge_def is_buy_def is_sell_def)

lemma update_created_simps:
  "status (objs (update_created w r ts) x) = status (objs w x)"
  "order_type (objs (update_created w r ts) x) = order_type (objs w x)"
  "price (objs (update_created w r ts) x) = price (objs w x)"
  "trigger_price (objs (update_created w r ts) x) = trigger_price (objs w x)"
  "side (objs (update_created w r ts) x) = side (objs w x)"
  "oco_peer (objs (update_created w r ts) x) = oco_peer (objs w x)"
  "stdout (update_created w r ts) = stdout w"
  "is_buy (objs (update_created w r ts) x) = is_buy (objs w x)"
  "is_sell (objs (update_created w r ts) x) = is_sell (objs w x)"
  by (simp_all add: update_created_def is_buy_def is_sell_def)

text \<open>The state after the trigger step on a pending stop-limit order.\<close>

lemma update_trigger_stop_limit:
  assumes "order_type (objs w r) = ''STOP_LIMIT''" "status (objs w r) = PENDING"
      "trigger_price (objs w r) = Some trig"
  shows "update_trigger (update_created w r ts) r ts p =
     Inr (if (is_buy (objs w r) \<and> trig \<le> p) \<or> (is_sell (objs w r) \<and> p \<le> trig)
          then activate (update_created w r ts) r ts
          else update_created w r ts)"
  using assms trigger_reached_Some[of "objs (update_created w r ts) r" trig p]
  by (simp add: update_trigger_def update_created_simps)

lemma activate_simps:
  "objs (activate w r ts) x = (if x = r then (objs w r)\<lparr>status := ACTIVE\<rparr> else objs w x)"
  "stdout (activate w r ts) = stdout w @ [PrintActivated ts r]"
  "next_ref (activate w r ts) = next_ref w"
  by (simp_all add: activate_def)

lemma Order_update_done: "is_done (objs w r) \<Longrightarrow> Order_update w r ts p = Inr w"
  by (simp add: Order_update_def)

lemma Order_cancel_done: "is_done (objs w r) \<Longrightarrow> Order_cancel w r ts = w"
  by (simp add: Order_cancel_def)

lemma Order_fill_filled: "status (objs w r) = FILLED \<Longrightarrow> Order_fill w r ts p = w"
  by (simp add: Order_fill_def)

lemma status_Order_cancel:
  "status (objs (Order_cancel w r ts) x) =
     (if x = r \<and> \<not> is_done (objs w r) then CANCELLED else status (objs w x))"
  by (simp add: Order_cancel_def)

text \<open>The concrete pair is what \<open>place_oco_order\<close> builds, and its replay over the ticks
  100, 102, 97, 99 (rows 1 to 4).\<close>

lemmas run_defs = run_tick_def Order_update_def update_created_def
  update_trigger_def activate_def update_fill_def trigger_reached_def limit_reached_def and_or_and_def
  py_le_def py_ge_def Order_fill_def Order_cancel_def is_done_def is_buy_def is_sell_def
  execute_fill_def pair_world_def tp_leg_def sl_leg_def Backtester_init_def

lemma pair_world_facts:
  "order_type (objs pair_world 0) = ''LIMIT''" "status (objs pair_world 0) = PENDING"
  "price (objs pair_world 0) = Some 105" "is_sell (objs pair_world 0)"
  "order_type (objs pair_world 1) = ''STOP_LIMIT''" "status (objs pair_world 1) = PENDING"
  "price (objs pair_world 1) = Some 98" "trigger_price (objs pair_world 1) = Some 98"
  "is_sell (objs pair_world 1)" "oco_peer (objs pair_world 0) = Some 1"
  "oco_peer (objs pair_world 1) = Some 0" "stdout pair_world = []"
  by (simp_all add: pair_world_def tp_leg_def sl_leg_def is_sell_def)

lemma replay_four_ticks:
  "\<exists>w bt. Backtester_run id (empty_world blank_order, Backtester_init id 10000)
           [(1, 100), (2, 102), (3, 97), (4, 99)] = Inr (w, bt) \<and>
         status (objs w 1) = FILLED \<and> status (objs w 0) = CANCELLED \<and>
         stdout w = [PrintActivated 3 1, PrintFilled 4 1, PrintCancelled 4 0] \<and>
         cash bt = 9999 \<and> position_size bt = 0 \<and> orders bt = []"
  by (simp add: Backtester_run_def place_pair run_defs)

subsection \<open>Filling\<close>

text \<open>
  Claim C5. An order that is ACTIVE, or a LIMIT order that is still PENDING, with limit
  price \<open>lmt\<close>: one call of \<open>update\<close> at price \<open>p\<close> returns, and the order is FILLED
  afterwards exactly when it is a buy and \<open>p \<le> lmt\<close> or a sell and \<open>lmt \<le> p\<close>. When it
  fills, \<open>filled_at\<close> is the timestamp of the call and \<open>filled_price\<close> is \<open>p\<close>; when it does
  not, the status is unchanged. No ACTIVATED line is printed by the call: a LIMIT order
  fills straight from PENDING.
\<close>

theorem limit_fill_exact:
  assumes "status (objs w r) = ACTIVE \<or> (order_type (objs w r) = ''LIMIT'' \<and> status (objs w r) = PENDING)"
      and "price (objs w r) = Some lmt"
  shows "\<exists>w'. Order_update w r ts p = Inr w' \<and>
          (status (objs w' r) = FILLED \<longleftrightarrow> (is_buy (objs w r) \<and> p \<le> lmt) \<or> (is_sell (objs w r) \<and> lmt \<le> p)) \<and>
          (status (objs w' r) = FILLED \<longrightarrow> filled_at (objs w' r) = Some ts \<and> filled_price (objs w' r) = Some p) \<and>
          (status (objs w' r) \<noteq> FILLED \<longrightarrow> status (objs w' r) = status (objs w r)) \<and>
          (\<forall>t x. PrintActivated t x \<in> set (stdout w') \<longrightarrow> PrintActivated t x \<in> set (stdout w))"
proof -
  let ?w1 = "update_created w r ts"
  have nd: "\<not> is_done (objs w r)" using assms(1) by (auto simp: is_done_def)
  have trg: "update_trigger ?w1 r ts p = Inr ?w1"
    using assms(1) by (auto simp: update_trigger_def update_created_simps)
  have lr: "limit_reached (objs ?w1 r) p = Inr ((is_buy (objs w r) \<and> p \<le> lmt) \<or> (is_sell (objs w r) \<and> lmt \<le> p))"
    using limit_reached_Some[of "objs ?w1 r" lmt p] assms(2) by (simp add: update_created_simps)
  have upd: "Order_update w r ts p = Inr (if (is_buy (objs w r) \<and> p \<le> lmt) \<or> (is_sell (objs w r) \<and> lmt \<le> p) then Order_fill ?w1 r ts p else ?w1)"
    using nd trg lr assms(1) by (auto simp: Order_update_def update_fill_def update_created_simps Let_def)
  have nf: "status (objs ?w1 r) \<noteq> FILLED" using assms(1) by (auto simp: update_created_simps)
  show ?thesis
    unfolding upd using nf assms(1)
    by (auto simp: Order_fill_def Order_cancel_def update_created_simps Let_def is_done_def split: option.splits)
qed


theorem limit_fill_witness:
  "(status (objs pair_world 0) = ACTIVE \<or>
      (order_type (objs pair_world 0) = ''LIMIT'' \<and> status (objs pair_world 0) = PENDING)) \<and>
   price (objs pair_world 0) = Some 105 \<and>
   (\<exists>w'. Order_update pair_world 0 (7::nat) 106 = Inr w' \<and> status (objs w' 0) = FILLED \<and>
      filled_at (objs w' 0) = Some 7 \<and> filled_price (objs w' 0) = Some 106)"
proof -
  have h1: "status (objs pair_world 0) = ACTIVE \<or>
      (order_type (objs pair_world 0) = ''LIMIT'' \<and> status (objs pair_world 0) = PENDING)"
    by (simp add: pair_world_facts)
  have h2: "price (objs pair_world 0) = Some 105" by (simp add: pair_world_facts)
  from limit_fill_exact[OF h1 h2, of 7 106] obtain w' where
    a: "Order_update pair_world 0 (7::nat) 106 = Inr w'" and
    b: "status (objs w' 0) = FILLED \<longleftrightarrow>
          (is_buy (objs pair_world 0) \<and> (106::rat) \<le> 105) \<or> (is_sell (objs pair_world 0) \<and> (105::rat) \<le> 106)" and
    c: "status (objs w' 0) = FILLED \<longrightarrow> filled_at (objs w' 0) = Some 7 \<and> filled_price (objs w' 0) = Some 106"
    by blast
  from b have "status (objs w' 0) = FILLED" by (simp add: pair_world_facts)
  with a c h1 h2 show ?thesis by blast
qed

text \<open>
  Claim C10. A PENDING STOP_LIMIT order with trigger \<open>trig\<close> and limit \<open>lmt\<close>, observed
  once at a price \<open>p\<close> with \<open>lmt \<le> p \<le> trig\<close> (a sell) or \<open>trig \<le> p \<le> lmt\<close> (a buy):
  the single call of \<open>update\<close> returns with the order FILLED at price \<open>p\<close> and the
  call's timestamp, and the first two lines it prints are ACTIVATED and FILLED for that
  order, in this order.
\<close>

theorem stop_limit_same_call:
  assumes "order_type (objs w r) = ''STOP_LIMIT''" "status (objs w r) = PENDING"
      "trigger_price (objs w r) = Some trig" "price (objs w r) = Some lmt"
      "(is_sell (objs w r) \<and> lmt \<le> p \<and> p \<le> trig) \<or> (is_buy (objs w r) \<and> trig \<le> p \<and> p \<le> lmt)"
  shows "\<exists>w'. Order_update w r ts p = Inr w' \<and> status (objs w' r) = FILLED \<and>
      filled_price (objs w' r) = Some p \<and> filled_at (objs w' r) = Some ts \<and>
      take 2 (drop (length (stdout w)) (stdout w')) = [PrintActivated ts r, PrintFilled ts r]"
proof -
  let ?w1 = "update_created w r ts"
  let ?w2 = "activate ?w1 r ts"
  have nd: "\<not> is_done (objs w r)" using assms(2) by (simp add: is_done_def)
  have c: "(is_buy (objs w r) \<and> trig \<le> p) \<or> (is_sell (objs w r) \<and> p \<le> trig)"
    using assms(5) by auto
  have t: "update_trigger ?w1 r ts p = Inr ?w2"
    using update_trigger_stop_limit[OF assms(1-3), of ts p] c by simp
  have lr: "limit_reached (objs ?w2 r) p = Inr True"
    using limit_reached_Some[of "objs ?w2 r" lmt p] assms(4,5)
    by (auto simp add: update_created_simps activate_simps is_buy_def is_sell_def)
  have u: "Order_update w r ts p = Inr (Order_fill ?w2 r ts p)"
    using nd t lr by (simp add: Order_update_def update_fill_def activate_simps)
  show ?thesis unfolding u
    by (auto simp: Order_fill_def Order_cancel_def is_done_def Let_def activate_simps
        update_created_simps split: option.splits)
qed

theorem stop_limit_same_call_witness:
  "order_type (objs pair_world 1) = ''STOP_LIMIT'' \<and> status (objs pair_world 1) = PENDING \<and>
   trigger_price (objs pair_world 1) = Some 98 \<and> price (objs pair_world 1) = Some 98 \<and>
   is_sell (objs pair_world 1) \<and> (98::rat) \<le> 98 \<and>
   (\<exists>w'. Order_update pair_world 1 (7::nat) 98 = Inr w' \<and> status (objs w' 1) = FILLED \<and>
      filled_price (objs w' 1) = Some 98 \<and> filled_at (objs w' 1) = Some 7 \<and>
      take 2 (drop (length (stdout pair_world)) (stdout w')) = [PrintActivated 7 1, PrintFilled 7 1])"
proof -
  have h: "(is_sell (objs pair_world 1) \<and> (98::rat) \<le> 98 \<and> (98::rat) \<le> 98) \<or>
           (is_buy (objs pair_world 1) \<and> (98::rat) \<le> 98 \<and> (98::rat) \<le> 98)"
    by (simp add: pair_world_def sl_leg_def is_sell_def)
  from stop_limit_same_call[OF pair_world_facts(5,6,8,7) h, of 7]
  show ?thesis by (simp add: pair_world_def sl_leg_def is_sell_def)
qed

subsection \<open>Activation\<close>

lemma replay_two_ticks:
  "\<exists>w bt. Backtester_run id (empty_world blank_order, Backtester_init id 10000)
           [(1, 100), (2, 102)] = Inr (w, bt) \<and>
         order_type (objs w 1) = ''STOP_LIMIT'' \<and> is_sell (objs w 1) \<and>
         trigger_price (objs w 1) = Some 98 \<and>
         status (objs w 1) = PENDING \<and> stdout w = []"
  by (simp add: Backtester_run_def place_pair run_defs)

lemma replay_three_ticks:
  "\<exists>w bt. Backtester_run id (empty_world blank_order, Backtester_init id 10000)
           [(1, 100), (2, 102), (3, 97)] = Inr (w, bt) \<and>
         status (objs w 1) = ACTIVE \<and> stdout w = [PrintActivated 3 1]"
  by (simp add: Backtester_run_def place_pair run_defs)

text \<open>
  Claim C6. A PENDING STOP_LIMIT order with trigger \<open>trig\<close> (and, as the constructor
  guarantees, a limit price): one call of \<open>update\<close> at price \<open>p\<close> returns; the trigger step
  of the call leaves the order ACTIVE, and the call prints its ACTIVATED line, exactly when
  the order is a buy and \<open>trig \<le> p\<close> or a sell and \<open>p \<le> trig\<close>. After the call the
  order is still PENDING exactly when that condition fails, and ACTIVE or already FILLED
  exactly when it holds. In particular, \<open>Backtester.run\<close> on the prices 100, 102, 97, 99
  places a sell stop-limit with trigger 98 at address 1: after the rows 100 and 102 it is
  PENDING and nothing has been printed, and the row with price 97 (row 3) activates it.
\<close>

theorem stop_limit_activation:
  assumes "order_type (objs w r) = ''STOP_LIMIT''" "status (objs w r) = PENDING"
      "trigger_price (objs w r) = Some trig" "price (objs w r) = Some lmt"
  shows "(\<exists>w2 w'. update_trigger (update_created w r ts) r ts p = Inr w2 \<and>
      Order_update w r ts p = Inr w' \<and>
      (status (objs w2 r) = ACTIVE \<longleftrightarrow>
         (is_buy (objs w r) \<and> trig \<le> p) \<or> (is_sell (objs w r) \<and> p \<le> trig)) \<and>
      (PrintActivated ts r \<in> set (drop (length (stdout w)) (stdout w')) \<longleftrightarrow>
         (is_buy (objs w r) \<and> trig \<le> p) \<or> (is_sell (objs w r) \<and> p \<le> trig)) \<and>
      (status (objs w' r) = PENDING \<longleftrightarrow>
         \<not> ((is_buy (objs w r) \<and> trig \<le> p) \<or> (is_sell (objs w r) \<and> p \<le> trig))) \<and>
      (status (objs w' r) = ACTIVE \<or> status (objs w' r) = FILLED \<longleftrightarrow>
         (is_buy (objs w r) \<and> trig \<le> p) \<or> (is_sell (objs w r) \<and> p \<le> trig))) \<and>
    (\<exists>w bt. Backtester_run id (empty_world blank_order, Backtester_init id 10000)
           [(1, 100), (2, 102)] = Inr (w, bt) \<and>
         order_type (objs w 1) = ''STOP_LIMIT'' \<and> is_sell (objs w 1) \<and>
         trigger_price (objs w 1) = Some 98 \<and>
         status (objs w 1) = PENDING \<and> stdout w = []) \<and>
    (\<exists>w bt. Backtester_run id (empty_world blank_order, Backtester_init id 10000)
           [(1, 100), (2, 102), (3, 97)] = Inr (w, bt) \<and>
         status (objs w 1) = ACTIVE \<and> stdout w = [PrintActivated 3 1])"
proof -
  let ?c = "(is_buy (objs w r) \<and> trig \<le> p) \<or> (is_sell (objs w r) \<and> p \<le> trig)"
  let ?w1 = "update_created w r ts"
  have nd: "\<not> is_done (objs w r)" using assms(2) by (simp add: is_done_def)
  note trg = update_trigger_stop_limit[OF assms(1-3), of ts p]
  have general: "\<exists>w2 w'. update_trigger (update_created w r ts) r ts p = Inr w2 \<and>
      Order_update w r ts p = Inr w' \<and>
      (status (objs w2 r) = ACTIVE \<longleftrightarrow> ?c) \<and>
      (PrintActivated ts r \<in> set (drop (length (stdout w)) (stdout w')) \<longleftrightarrow> ?c) \<and>
      (status (objs w' r) = PENDING \<longleftrightarrow> \<not> ?c) \<and>
      (status (objs w' r) = ACTIVE \<or> status (objs w' r) = FILLED \<longleftrightarrow> ?c)"
  proof (cases ?c)
    case False
    have t: "update_trigger ?w1 r ts p = Inr ?w1" unfolding trg using False by auto
    have "Order_update w r ts p = Inr ?w1"
      using nd t assms(1,2) by (simp add: Order_update_def update_fill_def update_created_simps)
    then show ?thesis using False t assms(2) by (simp add: update_created_simps)
  next
    case True
    let ?w2 = "activate ?w1 r ts"
    have t: "update_trigger ?w1 r ts p = Inr ?w2" using trg True by simp
    have lr: "limit_reached (objs ?w2 r) p = Inr ((is_buy (objs w r) \<and> p \<le> lmt) \<or> (is_sell (objs w r) \<and> lmt \<le> p))"
      using limit_reached_Some[of "objs ?w2 r" lmt p] assms(4)
      by (simp add: update_created_simps activate_simps is_buy_def is_sell_def)
    have u: "Order_update w r ts p = Inr (if (is_buy (objs w r) \<and> p \<le> lmt) \<or> (is_sell (objs w r) \<and> lmt \<le> p) then Order_fill ?w2 r ts p else ?w2)"
      using nd t lr by (simp add: Order_update_def update_fill_def activate_simps)
    show ?thesis unfolding u t using True
      by (auto simp: Order_fill_def Order_cancel_def is_done_def Let_def activate_simps
          update_created_simps split: option.splits)
  qed
  show ?thesis
    by (intro conjI) (rule general, rule replay_two_ticks, rule replay_three_ticks)
qed

theorem stop_limit_activation_witness:
  "order_type (objs pair_world 1) = ''STOP_LIMIT'' \<and> status (objs pair_world 1) = PENDING \<and>
   trigger_price (objs pair_world 1) = Some 98 \<and> price (objs pair_world 1) = Some 98 \<and>
   (\<exists>w'. Order_update pair_world 1 (3::nat) 97 = Inr w' \<and> status (objs w' 1) = ACTIVE \<and>
      PrintActivated 3 1 \<in> set (drop (length (stdout pair_world)) (stdout w'))) \<and>
   (\<exists>w'. Order_update pair_world 1 (1::nat) 100 = Inr w' \<and> status (objs w' 1) = PENDING \<and>
      PrintActivated 1 1 \<notin> set (drop (length (stdout pair_world)) (stdout w')))"
proof -
  note h = pair_world_facts(5,6,8,7)
  have sell: "is_sell (objs pair_world 1)" "\<not> is_buy (objs pair_world 1)"
    by (simp_all add: pair_world_def sl_leg_def is_sell_def is_buy_def)
  from stop_limit_activation[OF h, of 3 97] sell obtain w' where
    a: "Order_update pair_world 1 (3::nat) 97 = Inr w'"
    and b: "PrintActivated 3 1 \<in> set (drop (length (stdout pair_world)) (stdout w'))"
    and c: "status (objs w' 1) = ACTIVE \<or> status (objs w' 1) = FILLED"
    by auto
  have "status (objs w' 1) = ACTIVE"
    using a by (auto simp: run_defs)
  with a b have A: "\<exists>w'. Order_update pair_world 1 (3::nat) 97 = Inr w' \<and> status (objs w' 1) = ACTIVE \<and>
      PrintActivated 3 1 \<in> set (drop (length (stdout pair_world)) (stdout w'))" by blast
  from stop_limit_activation[OF h, of 1 100] sell obtain w'' where
    "Order_update pair_world 1 (1::nat) 100 = Inr w''"
    "PrintActivated 1 1 \<notin> set (drop (length (stdout pair_world)) (stdout w''))"
    "status (objs w'' 1) = PENDING"
    by auto
  then have B: "\<exists>w'. Order_update pair_world 1 (1::nat) 100 = Inr w' \<and> status (objs w' 1) = PENDING \<and>
      PrintActivated 1 1 \<notin> set (drop (length (stdout pair_world)) (stdout w'))" by blast
  show ?thesis using h A B by blast
qed

subsection \<open>Terminal states\<close>

text \<open>
  \<open>update\<close> and \<open>cancel\<close> return at once on a done order, and \<open>fill\<close> on a FILLED one (see
  \<open>Order_update_done\<close>, \<open>Order_cancel_done\<close>, \<open>Order_fill_filled\<close> above); cancelling twice is
  cancelling once. \<open>fill\<close> on a CANCELLED order, however, passes its guard.
\<close>

lemma cancel_idempotent: "Order_cancel (Order_cancel w r ts) r ts' = Order_cancel w r ts"
  by (simp add: Order_cancel_def is_done_def)

lemma fill_any_cancelled:
  "status (objs w r) = CANCELLED \<Longrightarrow> status (objs (Order_fill w r ts p) r) = FILLED"
  by (auto simp: Order_fill_def Order_cancel_def is_done_def Let_def split: option.splits)


text \<open>
  Claim C3 (the code's behaviour where the claim fails). The claim says that no operation
  changes the status of an order that is FILLED or CANCELLED. For \<open>update\<close> and \<open>cancel\<close>
  this holds. \<open>Order.fill\<close> tests only \<open>status == 'FILLED'\<close>: called on the take-profit
  leg of the concrete pair after that leg was cancelled, it turns CANCELLED into FILLED.
\<close>

theorem fill_after_cancel_changes_status:
  "status (objs (Order_cancel pair_world 0 5) 0) = CANCELLED \<and>
   status (objs (Order_fill (Order_cancel pair_world 0 5) 0 6 105) 0) = FILLED"
  by (simp add: Order_fill_def Order_cancel_def is_done_def pair_world_def tp_leg_def sl_leg_def)

section \<open>Facts about the replay engine\<close>

lemma objs_update_created:
  "objs (update_created w r ts) x =
     (if x = r \<and> created_at (objs w r) = None then (objs w r)\<lparr>created_at := Some ts\<rparr> else objs w x)"
  by (simp add: update_created_def)

lemma objs_Order_cancel:
  "objs (Order_cancel w r ts) x =
     (if x = r \<and> \<not> is_done (objs w r) then (objs w r)\<lparr>status := CANCELLED\<rparr> else objs w x)"
  by (simp add: Order_cancel_def)

lemma stdout_Order_cancel:
  "stdout (Order_cancel w r ts) =
     stdout w @ (if is_done (objs w r) then [] else [PrintCancelled ts r])"
  by (simp add: Order_cancel_def)

text \<open>\<open>fill\<close> on an order that is not FILLED.\<close>

lemma objs_Order_fill:
  assumes "status (objs w r) \<noteq> FILLED"
  shows "objs (Order_fill w r ts p) x =
     (if x = r then (objs w r)\<lparr>status := FILLED, filled_at := Some ts, filled_price := Some p\<rparr>
      else if oco_peer (objs w r) = Some x \<and> \<not> is_done (objs w x)
      then (objs w x)\<lparr>status := CANCELLED\<rparr>
      else objs w x)"
  using assms
  by (auto simp: Order_fill_def Let_def objs_Order_cancel is_done_def split: option.splits)

lemma stdout_Order_fill:
  assumes "status (objs w r) \<noteq> FILLED"
  shows "stdout (Order_fill w r ts p) =
     stdout w @ PrintFilled ts r #
       (case oco_peer (objs w r) of
          None \<Rightarrow> []
        | Some q \<Rightarrow> if q \<noteq> r \<and> \<not> is_done (objs w q) then [PrintCancelled ts q] else [])"
  using assms
  by (auto simp: Order_fill_def Let_def stdout_Order_cancel is_done_def split: option.splits)

text \<open>The possible results of one \<open>update\<close>.\<close>

lemma Order_update_cases:
  assumes "Order_update w r ts p = Inr w1"
  shows "(is_done (objs w r) \<and> w1 = w) \<or>
     (\<not> is_done (objs w r) \<and>
      (\<exists>v. (v = update_created w r ts \<or>
             (v = activate (update_created w r ts) r ts \<and> status (objs w r) = PENDING \<and>
              order_type (objs w r) = ''STOP_LIMIT'')) \<and>
            (w1 = v \<or>
             (w1 = Order_fill v r ts p \<and> (is_buy (objs w r) \<or> is_sell (objs w r))))))"
proof (cases "is_done (objs w r)")
  case True
  then show ?thesis using assms by (simp add: Order_update_def)
next
  case False
  let ?w0 = "update_created w r ts"
  from assms False obtain v where
    t: "update_trigger ?w0 r ts p = Inr v" and f: "update_fill v r ts p = Inr w1"
    by (auto simp: Order_update_def split: sum.splits)
  from t have v: "v = ?w0 \<or> (v = activate ?w0 r ts \<and> status (objs w r) = PENDING \<and>
      order_type (objs w r) = ''STOP_LIMIT'')"
    by (auto simp: update_trigger_def update_created_simps split: if_splits sum.splits)
  have sides: "is_buy (objs v r) = is_buy (objs w r)" "is_sell (objs v r) = is_sell (objs w r)"
    using v by (auto simp: update_created_simps activate_simps is_buy_def is_sell_def)
  from f have "w1 = v \<or> (w1 = Order_fill v r ts p \<and> (is_buy (objs v r) \<or> is_sell (objs v r)))"
    by (auto simp: update_fill_def Let_def limit_reached_def and_or_and_def
        split: if_splits sum.splits)
  with v sides False show ?thesis by auto
qed

text \<open>On a well-formed order \<open>update\<close> does not raise.\<close>

lemma Order_update_total:
  assumes "well_formed (objs w r)"
  shows "\<exists>w1. Order_update w r ts p = Inr w1"
proof (cases "is_done (objs w r)")
  case True
  then show ?thesis by (simp add: Order_update_def)
next
  case False
  let ?w0 = "update_created w r ts"
  have ok: "order_type (objs w r) = ''STOP_LIMIT'' \<longrightarrow> trigger_price (objs w r) \<noteq> None \<and> price (objs w r) \<noteq> None"
           "order_type (objs w r) = ''LIMIT'' \<longrightarrow> price (objs w r) \<noteq> None"
           "status (objs w r) = ACTIVE \<longrightarrow> order_type (objs w r) = ''STOP_LIMIT''"
    using assms by (auto simp: well_formed_def Order_validate_def split: if_splits)
  have "\<exists>v. update_trigger ?w0 r ts p = Inr v \<and>
          (v = ?w0 \<or> (v = activate ?w0 r ts \<and> order_type (objs w r) = ''STOP_LIMIT''))"
    using ok(1) trigger_reached_Some[of "objs ?w0 r" _ p]
    by (auto simp: update_trigger_def update_created_simps)
  then obtain v where t: "update_trigger ?w0 r ts p = Inr v"
    and v: "v = ?w0 \<or> (v = activate ?w0 r ts \<and> order_type (objs w r) = ''STOP_LIMIT'')"
    by blast
  have "\<exists>w1. update_fill v r ts p = Inr w1"
  proof (cases "status (objs v r) = ACTIVE \<or> order_type (objs v r) = ''LIMIT''")
    case False
    then show ?thesis by (simp add: update_fill_def)
  next
    case True
    have "price (objs v r) \<noteq> None"
    proof -
      have ot: "order_type (objs v r) = order_type (objs w r)" "price (objs v r) = price (objs w r)"
        using v by (auto simp: update_created_simps activate_simps)
      have "order_type (objs w r) = ''STOP_LIMIT'' \<or> order_type (objs w r) = ''LIMIT''"
        using True v ok(3) by (auto simp: update_created_simps activate_simps)
      with ok ot show ?thesis by auto
    qed
    then obtain l where "price (objs v r) = Some l" by auto
    from limit_reached_Some[OF this, of p] True show ?thesis
      by (simp add: update_fill_def)
  qed
  with t False show ?thesis by (simp add: Order_update_def)
qed

lemma well_formed_fields:
  assumes "order_type ob' = order_type ob" "price ob' = price ob"
      "trigger_price ob' = trigger_price ob"
      "status ob' = ACTIVE \<longrightarrow> order_type ob = ''STOP_LIMIT''"
      "Order_validate ob = Inr ob"
  shows "well_formed ob'"
  using assms by (auto simp: well_formed_def Order_validate_def split: if_splits)

text \<open>What one \<open>update\<close> does to any object of the store.\<close>

lemma Order_update_frame:
  assumes "Order_update w r ts p = Inr w1"
  shows "order_type (objs w1 x) = order_type (objs w x)"
    and "side (objs w1 x) = side (objs w x)"
    and "quantity (objs w1 x) = quantity (objs w x)"
    and "price (objs w1 x) = price (objs w x)"
    and "trigger_price (objs w1 x) = trigger_price (objs w x)"
    and "oco_peer (objs w1 x) = oco_peer (objs w x)"
    and "is_done (objs w x) \<Longrightarrow> objs w1 x = objs w x"
    and "x \<noteq> r \<Longrightarrow> status (objs w1 x) = status (objs w x) \<or> status (objs w1 x) = CANCELLED"
    and "status (objs w1 r) = CANCELLED \<Longrightarrow> status (objs w r) = CANCELLED"
    and "status (objs w1 x) = ACTIVE \<Longrightarrow> status (objs w x) = ACTIVE \<or> order_type (objs w x) = ''STOP_LIMIT''"
  using Order_update_cases[OF assms]
  by (auto simp: objs_Order_fill objs_update_created activate_simps is_done_def
      update_trigger_def split: if_splits)

text \<open>What is known when an \<open>update\<close> turns its order FILLED, and what it prints.\<close>

lemma Order_update_becomes_filled:
  assumes "Order_update w r ts p = Inr w1"
      and "status (objs w r) \<noteq> FILLED" and "status (objs w1 r) = FILLED"
  shows "\<not> is_done (objs w r)"
    and "filled_at (objs w1 r) = Some ts"
    and "filled_price (objs w1 r) = Some p"
    and "is_buy (objs w r) \<or> is_sell (objs w r)"
    and "oco_peer (objs w r) = Some q \<Longrightarrow> q \<noteq> r \<Longrightarrow> \<not> is_done (objs w q) \<Longrightarrow>
           status (objs w1 q) = CANCELLED"
proof -
  from Order_update_cases[OF assms(1)] assms(2,3)
  obtain v where nd: "\<not> is_done (objs w r)"
    and v: "v = update_created w r ts \<or> v = activate (update_created w r ts) r ts"
    and w1: "w1 = v \<or> (w1 = Order_fill v r ts p \<and> (is_buy (objs w r) \<or> is_sell (objs w r)))"
    by (auto simp: is_done_def)
  have vs: "status (objs v r) \<noteq> FILLED"
    using v assms(2) by (auto simp: update_created_simps activate_simps)
  with w1 assms(3) have f: "w1 = Order_fill v r ts p" and s: "is_buy (objs w r) \<or> is_sell (objs w r)"
    by auto
  show "\<not> is_done (objs w r)" by (rule nd)
  show "is_buy (objs w r) \<or> is_sell (objs w r)" by (rule s)
  show "filled_at (objs w1 r) = Some ts" "filled_price (objs w1 r) = Some p"
    unfolding f by (simp_all add: objs_Order_fill[OF vs])
  show "status (objs w1 q) = CANCELLED"
    if "oco_peer (objs w r) = Some q" "q \<noteq> r" "\<not> is_done (objs w q)"
    using that v unfolding f
    by (auto simp: objs_Order_fill[OF vs] update_created_simps activate_simps is_done_def)
qed

lemma Order_update_other_filled:
  assumes "Order_update w r ts p = Inr w1" and "x \<noteq> r"
  shows "status (objs w1 x) = FILLED \<longleftrightarrow> status (objs w x) = FILLED"
  using Order_update_frame(7,8)[OF assms(1), of x] assms(2) by (auto simp: is_done_def)

lemma Order_update_stdout:
  assumes "Order_update w r ts p = Inr w1"
  shows "\<exists>evs. stdout w1 = stdout w @ evs \<and>
           (\<forall>t x. PrintFilled t x \<in> set evs \<longrightarrow>
              x = r \<and> t = ts \<and> status (objs w r) \<noteq> FILLED \<and> status (objs w1 r) = FILLED)"
proof -
  from Order_update_cases[OF assms] consider
    (same) "w1 = w" |
    (live) v where "\<not> is_done (objs w r)"
      "v = update_created w r ts \<or> v = activate (update_created w r ts) r ts"
      "w1 = v \<or> w1 = Order_fill v r ts p"
    by blast
  then show ?thesis
  proof cases
    case same
    then show ?thesis by simp
  next
    case live
    have vs: "status (objs v r) \<noteq> FILLED" and nf: "status (objs w r) \<noteq> FILLED"
      using live(1,2) by (auto simp: update_created_simps activate_simps is_done_def)
    have ve: "\<exists>evs. stdout v = stdout w @ evs \<and> (\<forall>t x. PrintFilled t x \<notin> set evs)"
      using live(2) by (auto simp: update_created_simps activate_simps)
    from live(3) show ?thesis
    proof
      assume "w1 = v"
      with ve show ?thesis by auto
    next
      assume f: "w1 = Order_fill v r ts p"
      from ve obtain evs where e: "stdout v = stdout w @ evs" "\<forall>t x. PrintFilled t x \<notin> set evs"
        by blast
      show ?thesis unfolding f using e nf
        by (auto simp: stdout_Order_fill[OF vs] objs_Order_fill[OF vs] split: option.splits)
    qed
  qed
qed

lemma Order_update_well_formed:
  assumes "Order_update w r ts p = Inr w1" and "well_formed (objs w x)"
  shows "well_formed (objs w1 x)"
proof (rule well_formed_fields)
  show "order_type (objs w1 x) = order_type (objs w x)" "price (objs w1 x) = price (objs w x)"
    "trigger_price (objs w1 x) = trigger_price (objs w x)"
    by (rule Order_update_frame[OF assms(1)])+
  show "status (objs w1 x) = ACTIVE \<longrightarrow> order_type (objs w x) = ''STOP_LIMIT''"
    using Order_update_frame(10)[OF assms(1), of x] assms(2) by (auto simp: well_formed_def)
  show "Order_validate (objs w x) = Inr (objs w x)" using assms(2) by (simp add: well_formed_def)
qed

lemma execute_fill_Some:
  assumes "filled_price ob = Some fp"
  shows "execute_fill bt ob =
     Inr (bt\<lparr>cash := (if is_buy ob then cash bt - fp * quantity ob
                       else if is_sell ob then cash bt + fp * quantity ob else cash bt),
             position_size := (if is_buy ob then position_size bt + quantity ob
                       else if is_sell ob then position_size bt - quantity ob
                       else position_size bt),
             trade_log := trade_log bt @
                 [\<lparr> trade_timestamp = filled_at ob, trade_type = side ob,
                    trade_price = Some fp \<rparr>]\<rparr>)"
  using assms by (simp add: execute_fill_def)

text \<open>A property of the store kept by every update of an order of the list is kept by
  the inner loop.\<close>
lemma run_orders_invariant:
  assumes "\<And>v r v1. r \<in> set rs \<Longrightarrow> P v \<Longrightarrow> Order_update v r ts p = Inr v1 \<Longrightarrow> P v1"
      and "P (fst s)" and "run_orders s rs ts p = Inr s'"
  shows "P (fst s')"
  using assms
proof (induction rs arbitrary: s)
  case Nil
  then show ?case by simp
next
  case (Cons r rest)
  from Cons.prems(3) obtain w1 where u: "Order_update (fst s) r ts p = Inr w1"
    by (auto split: sum.splits)
  have p1: "P w1" using Cons.prems(1)[OF _ Cons.prems(2) u] by simp
  from Cons.prems(3) u obtain bt1 where run1: "run_orders (w1, bt1) rest ts p = Inr s'"
    by (auto split: sum.splits if_splits)
  show ?case
  proof (rule Cons.IH[OF _ _ run1])
    fix v x v1 assume "x \<in> set rest" "P v" "Order_update v x ts p = Inr v1"
    then show "P v1" using Cons.prems(1)[of x v v1] by simp
  next
    show "P (fst (w1, bt1))" using p1 by simp
  qed
qed

text \<open>
  The inner loop on a list of distinct, well-formed orders none of which is FILLED yet: it
  returns, and the ledger has received exactly the orders of the list that are FILLED
  afterwards, in list order, each at the tick's price. \<open>sd\<close> and \<open>qt\<close> name the sides and
  quantities, which no update changes.
\<close>

lemma run_orders_ledger:
  fixes w :: "('a::{ord,plus,minus,times}, 't) world"
  assumes "distinct rs"
      and "\<forall>r\<in>set rs. well_formed (objs w r) \<and> status (objs w r) \<noteq> FILLED"
      and "\<forall>x. side (objs w x) = sd x" and "\<forall>x. quantity (objs w x) = qt x"
  shows "\<exists>w' bt'. run_orders (w, bt) rs ts p = Inr (w', bt') \<and>
      orders bt' = orders bt \<and> initial_cash bt' = initial_cash bt \<and>
      trade_log bt' = trade_log bt @
        map (\<lambda>r. \<lparr> trade_timestamp = Some ts, trade_type = sd r, trade_price = Some p \<rparr>)
          (filter (\<lambda>r. status (objs w' r) = FILLED) rs) \<and>
      cash bt' = foldl (\<lambda>c r. if sd r = ''BUY'' then c - p * qt r else c + p * qt r) (cash bt)
          (filter (\<lambda>r. status (objs w' r) = FILLED) rs) \<and>
      position_size bt' = foldl (\<lambda>z r. if sd r = ''BUY'' then z + qt r else z - qt r)
          (position_size bt) (filter (\<lambda>r. status (objs w' r) = FILLED) rs) \<and>
      (\<forall>r\<in>set rs. status (objs w' r) = FILLED \<longrightarrow> sd r = ''BUY'' \<or> sd r = ''SELL'')"
  using assms
proof (induction rs arbitrary: w bt)
  case Nil
  then show ?case by simp
next
  case (Cons r rest)
  have wf: "well_formed (objs w r)" and nf: "status (objs w r) \<noteq> FILLED"
    using Cons.prems(2) by auto
  from Order_update_total[OF wf] obtain w1 where u: "Order_update w r ts p = Inr w1" by blast
  have rest1: "\<forall>x\<in>set rest. well_formed (objs w1 x) \<and> status (objs w1 x) \<noteq> FILLED"
  proof
    fix x assume x: "x \<in> set rest"
    then have "x \<noteq> r" using Cons.prems(1) by auto
    from Order_update_other_filled[OF u this] Order_update_well_formed[OF u, of x] Cons.prems(2) x
    show "well_formed (objs w1 x) \<and> status (objs w1 x) \<noteq> FILLED" by auto
  qed
  have sd1: "\<forall>x. side (objs w1 x) = sd x" and qt1: "\<forall>x. quantity (objs w1 x) = qt x"
    using Order_update_frame(2,3)[OF u] Cons.prems(3,4) by auto
  have d: "distinct rest" and rn: "r \<notin> set rest" using Cons.prems(1) by auto
  show ?case
  proof (cases "status (objs w1 r) = FILLED")
    case False
    from Cons.IH[OF d rest1 sd1 qt1, of bt] obtain w' bt' where
      run: "run_orders (w1, bt) rest ts p = Inr (w', bt')" and
      rest: "orders bt' = orders bt" "initial_cash bt' = initial_cash bt"
        "trade_log bt' = trade_log bt @
           map (\<lambda>r. \<lparr> trade_timestamp = Some ts, trade_type = sd r, trade_price = Some p \<rparr>)
             (filter (\<lambda>r. status (objs w' r) = FILLED) rest)"
        "cash bt' = foldl (\<lambda>c r. if sd r = ''BUY'' then c - p * qt r else c + p * qt r) (cash bt)
             (filter (\<lambda>r. status (objs w' r) = FILLED) rest)"
        "position_size bt' = foldl (\<lambda>z r. if sd r = ''BUY'' then z + qt r else z - qt r)
             (position_size bt) (filter (\<lambda>r. status (objs w' r) = FILLED) rest)"
        "\<forall>r\<in>set rest. status (objs w' r) = FILLED \<longrightarrow> sd r = ''BUY'' \<or> sd r = ''SELL''"
      by blast
    have keep: "status (objs w' r) \<noteq> FILLED"
    proof -
      have "status (objs (fst (w', bt')) r) \<noteq> FILLED"
      proof (rule run_orders_invariant[where P = "\<lambda>v. status (objs v r) \<noteq> FILLED" and s = "(w1, bt)",
            OF _ _ run])
        show "status (objs (fst (w1, bt)) r) \<noteq> FILLED" using False by simp
      next
        fix v x v1 assume "x \<in> set rest" "status (objs v r) \<noteq> FILLED" "Order_update v x ts p = Inr v1"
        with rn Order_update_other_filled[of v x ts p v1 r] show "status (objs v1 r) \<noteq> FILLED"
          by auto
      qed
      then show ?thesis by simp
    qed
    have "run_orders (w, bt) (r # rest) ts p = Inr (w', bt')"
      using u False run by simp
    with rest keep show ?thesis by simp
  next
    case True
    note bf = Order_update_becomes_filled[OF u nf True]
    let ?bt1 = "bt\<lparr>cash := (if sd r = ''BUY'' then cash bt - p * qt r else cash bt + p * qt r),
             position_size := (if sd r = ''BUY'' then position_size bt + qt r
                       else position_size bt - qt r),
             trade_log := trade_log bt @
                 [\<lparr> trade_timestamp = Some ts, trade_type = sd r, trade_price = Some p \<rparr>]\<rparr>"
    have side_r: "sd r = ''BUY'' \<or> sd r = ''SELL''"
      using bf(4) Cons.prems(3) by (auto simp: is_buy_def is_sell_def)
    have ex: "execute_fill bt (objs w1 r) = Inr ?bt1"
      using execute_fill_Some[OF bf(3), of bt] bf(2) side_r sd1 qt1
      by (auto simp: is_buy_def is_sell_def)
    from Cons.IH[OF d rest1 sd1 qt1, of ?bt1] obtain w' bt' where
      run: "run_orders (w1, ?bt1) rest ts p = Inr (w', bt')" and
      rest: "orders bt' = orders ?bt1" "initial_cash bt' = initial_cash ?bt1"
        "trade_log bt' = trade_log ?bt1 @
           map (\<lambda>r. \<lparr> trade_timestamp = Some ts, trade_type = sd r, trade_price = Some p \<rparr>)
             (filter (\<lambda>r. status (objs w' r) = FILLED) rest)"
        "cash bt' = foldl (\<lambda>c r. if sd r = ''BUY'' then c - p * qt r else c + p * qt r) (cash ?bt1)
             (filter (\<lambda>r. status (objs w' r) = FILLED) rest)"
        "position_size bt' = foldl (\<lambda>z r. if sd r = ''BUY'' then z + qt r else z - qt r)
             (position_size ?bt1) (filter (\<lambda>r. status (objs w' r) = FILLED) rest)"
        "\<forall>r\<in>set rest. status (objs w' r) = FILLED \<longrightarrow> sd r = ''BUY'' \<or> sd r = ''SELL''"
      by blast
    have keep: "status (objs w' r) = FILLED"
    proof -
      have "status (objs (fst (w', bt')) r) = FILLED"
      proof (rule run_orders_invariant[where P = "\<lambda>v. status (objs v r) = FILLED" and s = "(w1, ?bt1)",
            OF _ _ run])
        show "status (objs (fst (w1, ?bt1)) r) = FILLED" using True by simp
      next
        fix v x v1 assume "x \<in> set rest" "status (objs v r) = FILLED" "Order_update v x ts p = Inr v1"
        with rn Order_update_other_filled[of v x ts p v1 r] show "status (objs v1 r) = FILLED"
          by auto
      qed
      then show ?thesis by simp
    qed
    have "run_orders (w, bt) (r # rest) ts p = Inr (w', bt')"
      using u True ex run by simp
    with rest keep side_r show ?thesis by simp
  qed
qed

lemma Order_update_created:
  assumes "Order_update w r ts p = Inr w1"
  shows "created_at (objs w x) \<noteq> None \<Longrightarrow> created_at (objs w1 x) \<noteq> None"
    and "is_done (objs w1 r) \<or> created_at (objs w1 r) \<noteq> None"
    and "is_done (objs w x) \<Longrightarrow> is_done (objs w1 x)"
proof -
  from Order_update_cases[OF assms] consider
    (same) "is_done (objs w r)" "w1 = w" |
    (live) v where "\<not> is_done (objs w r)"
      "v = update_created w r ts \<or> v = activate (update_created w r ts) r ts"
      "w1 = v \<or> w1 = Order_fill v r ts p"
    by blast
  then have "(created_at (objs w x) \<noteq> None \<longrightarrow> created_at (objs w1 x) \<noteq> None) \<and>
      (is_done (objs w1 r) \<or> created_at (objs w1 r) \<noteq> None)"
  proof cases
    case same
    then show ?thesis by simp
  next
    case live
    have vs: "status (objs v r) \<noteq> FILLED"
      using live(1,2) by (auto simp: update_created_simps activate_simps is_done_def)
    have vc: "created_at (objs v r) \<noteq> None"
      "created_at (objs w x) \<noteq> None \<longrightarrow> created_at (objs v x) \<noteq> None"
      using live(2) by (auto simp: objs_update_created activate_simps)
    from live(3) vc show ?thesis
      by (auto simp: objs_Order_fill[OF vs])
  qed
  then show "created_at (objs w x) \<noteq> None \<Longrightarrow> created_at (objs w1 x) \<noteq> None"
    and "is_done (objs w1 r) \<or> created_at (objs w1 r) \<noteq> None" by auto
  show "is_done (objs w x) \<Longrightarrow> is_done (objs w1 x)"
    using Order_update_frame(7)[OF assms, of x] by simp
qed

text \<open>Every order of the list has been observed by the inner loop: it is done, or it
  carries the stamp of a first observation.\<close>
lemma run_orders_observes_all:
  assumes "run_orders s rs ts p = Inr s'"
  shows "\<forall>r\<in>set rs. is_done (objs (fst s') r) \<or> created_at (objs (fst s') r) \<noteq> None"
  using assms
proof (induction rs arbitrary: s)
  case Nil
  then show ?case by simp
next
  case (Cons r rest)
  from Cons.prems obtain w1 where u: "Order_update (fst s) r ts p = Inr w1"
    by (auto split: sum.splits)
  from Cons.prems u obtain bt1 where run1: "run_orders (w1, bt1) rest ts p = Inr s'"
    by (auto split: sum.splits if_splits)
  have "is_done (objs (fst s') r) \<or> created_at (objs (fst s') r) \<noteq> None"
  proof (rule run_orders_invariant[where P = "\<lambda>v. is_done (objs v r) \<or> created_at (objs v r) \<noteq> None"
        and s = "(w1, bt1)", OF _ _ run1])
    show "is_done (objs (fst (w1, bt1)) r) \<or> created_at (objs (fst (w1, bt1)) r) \<noteq> None"
      using Order_update_created(2)[OF u] by simp
  next
    fix v x v1
    assume "is_done (objs v r) \<or> created_at (objs v r) \<noteq> None" "Order_update v x ts p = Inr v1"
    then show "is_done (objs v1 r) \<or> created_at (objs v1 r) \<noteq> None"
      using Order_update_created(1,3)[of v x ts p v1 r] by blast
  qed
  with Cons.IH[OF run1] show ?case by simp
qed

text \<open>
  One tick on an open set of distinct, well-formed orders that are not done: the tick
  returns; the open set afterwards is the old one without the done orders; the ledger has
  received exactly the orders that are FILLED afterwards, in insertion order, each at the
  tick's price and timestamp; and the open set again satisfies what was assumed of it.
\<close>

lemma run_tick_step:
  fixes w :: "('a::{ord,plus,minus,times}, 't) world"
  assumes "distinct (orders bt)"
      and "\<forall>r\<in>set (orders bt). well_formed (objs w r) \<and> \<not> is_done (objs w r)"
  shows "\<exists>w' bt'. run_tick (w, bt) (ts, p) = Inr (w', bt') \<and>
      orders bt' = filter (\<lambda>r. \<not> is_done (objs w' r)) (orders bt) \<and>
      initial_cash bt' = initial_cash bt \<and>
      trade_log bt' = trade_log bt @
        map (\<lambda>r. \<lparr> trade_timestamp = Some ts, trade_type = side (objs w r), trade_price = Some p \<rparr>)
          (filter (\<lambda>r. status (objs w' r) = FILLED) (orders bt)) \<and>
      cash bt' = foldl (\<lambda>c r. if is_buy (objs w r) then c - p * quantity (objs w r)
                               else c + p * quantity (objs w r)) (cash bt)
          (filter (\<lambda>r. status (objs w' r) = FILLED) (orders bt)) \<and>
      position_size bt' = foldl (\<lambda>z r. if is_buy (objs w r) then z + quantity (objs w r)
                               else z - quantity (objs w r)) (position_size bt)
          (filter (\<lambda>r. status (objs w' r) = FILLED) (orders bt)) \<and>
      (\<forall>r\<in>set (orders bt). status (objs w' r) = FILLED \<longrightarrow> is_buy (objs w r) \<or> is_sell (objs w r)) \<and>
      (\<forall>r\<in>set (orders bt). is_done (objs w' r) \<or> created_at (objs w' r) \<noteq> None) \<and>
      distinct (orders bt') \<and>
      (\<forall>r\<in>set (orders bt'). well_formed (objs w' r) \<and> \<not> is_done (objs w' r))"
proof -
  have pre: "\<forall>r\<in>set (orders bt). well_formed (objs w r) \<and> status (objs w r) \<noteq> FILLED"
    using assms(2) by (auto simp: is_done_def)
  from run_orders_ledger[OF assms(1) pre, of "\<lambda>x. side (objs w x)" "\<lambda>x. quantity (objs w x)" bt ts p]
  obtain w' bt1 where run: "run_orders (w, bt) (orders bt) ts p = Inr (w', bt1)"
    and l: "orders bt1 = orders bt" "initial_cash bt1 = initial_cash bt"
      "trade_log bt1 = trade_log bt @
        map (\<lambda>r. \<lparr> trade_timestamp = Some ts, trade_type = side (objs w r), trade_price = Some p \<rparr>)
          (filter (\<lambda>r. status (objs w' r) = FILLED) (orders bt))"
      "cash bt1 = foldl (\<lambda>c r. if side (objs w r) = ''BUY'' then c - p * quantity (objs w r)
                               else c + p * quantity (objs w r)) (cash bt)
          (filter (\<lambda>r. status (objs w' r) = FILLED) (orders bt))"
      "position_size bt1 = foldl (\<lambda>z r. if side (objs w r) = ''BUY'' then z + quantity (objs w r)
                               else z - quantity (objs w r)) (position_size bt)
          (filter (\<lambda>r. status (objs w' r) = FILLED) (orders bt))"
      "\<forall>r\<in>set (orders bt). status (objs w' r) = FILLED \<longrightarrow>
          side (objs w r) = ''BUY'' \<or> side (objs w r) = ''SELL''"
    by auto
  let ?bt' = "bt1\<lparr>orders := filter (\<lambda>r. \<not> is_done (objs w' r)) (orders bt1)\<rparr>"
  have t: "run_tick (w, bt) (ts, p) = Inr (w', ?bt')"
    using run by (simp add: run_tick_def)
  have wf: "\<forall>r\<in>set (orders bt). well_formed (objs w' r)"
  proof
    fix r assume r: "r \<in> set (orders bt)"
    have "well_formed (objs (fst (w', bt1)) r)"
    proof (rule run_orders_invariant[where P = "\<lambda>v. well_formed (objs v r)" and s = "(w, bt)",
          OF _ _ run])
      show "well_formed (objs (fst (w, bt)) r)" using assms(2) r by simp
    next
      fix v x v1 assume a: "well_formed (objs v r)" "Order_update v x ts p = Inr v1"
      show "well_formed (objs v1 r)" by (rule Order_update_well_formed[OF a(2) a(1)])
    qed
    then show "well_formed (objs w' r)" by simp
  qed
  from run_orders_observes_all[OF run]
  have obs: "\<forall>r\<in>set (orders bt). is_done (objs w' r) \<or> created_at (objs w' r) \<noteq> None" by simp
  show ?thesis
    unfolding t using l wf obs assms(1) by (simp add: is_buy_def is_sell_def)
qed

text \<open>A property of the store kept by every update is kept by a tick and by the whole
  loop; and on a well-formed open set the loop returns.\<close>

lemma run_tick_invariant:
  assumes "\<And>v r t q v1. P v \<Longrightarrow> Order_update v r t q = Inr v1 \<Longrightarrow> P v1"
      and "P (fst s)" and "run_tick s row = Inr s'"
  shows "P (fst s')"
proof -
  from assms(3) obtain s1 where run: "run_orders s (orders (snd s)) (fst row) (snd row) = Inr s1"
    and s': "fst s' = fst s1"
    by (auto simp: run_tick_def split: sum.splits)
  have "P (fst s1)"
    by (rule run_orders_invariant[where P = P, OF _ assms(2) run]) (rule assms(1))
  with s' show ?thesis by simp
qed

lemma run_loop_invariant:
  assumes "\<And>v r t q v1. P v \<Longrightarrow> Order_update v r t q = Inr v1 \<Longrightarrow> P v1"
      and "P (fst s)" and "run_loop s rows = Inr s'"
  shows "P (fst s')"
  using assms(2,3)
proof (induction rows arbitrary: s)
  case Nil
  then show ?case by simp
next
  case (Cons row rows)
  from Cons.prems(2) obtain s1 where t: "run_tick s row = Inr s1" and l: "run_loop s1 rows = Inr s'"
    by (auto split: sum.splits)
  have "P (fst s1)" by (rule run_tick_invariant[where P = P, OF assms(1) Cons.prems(1) t])
  from Cons.IH[OF this l] show ?case .
qed

lemma run_loop_total:
  fixes w :: "('a::{ord,plus,minus,times}, 't) world"
  assumes "distinct (orders bt)"
      and "\<forall>r\<in>set (orders bt). well_formed (objs w r) \<and> \<not> is_done (objs w r)"
  shows "\<exists>w' bt'. run_loop (w, bt) rows = Inr (w', bt') \<and> distinct (orders bt') \<and>
           (\<forall>r\<in>set (orders bt'). well_formed (objs w' r) \<and> \<not> is_done (objs w' r)) \<and>
           set (orders bt') \<subseteq> set (orders bt)"
  using assms
proof (induction rows arbitrary: w bt)
  case Nil
  then show ?case by simp
next
  case (Cons row rows)
  obtain ts p where row: "row = (ts, p)" by (cases row)
  from run_tick_step[OF Cons.prems, of ts p] obtain w1 bt1 where
    t: "run_tick (w, bt) (ts, p) = Inr (w1, bt1)"
    and o: "orders bt1 = filter (\<lambda>r. \<not> is_done (objs w1 r)) (orders bt)"
    and d: "distinct (orders bt1)"
    and wf: "\<forall>r\<in>set (orders bt1). well_formed (objs w1 r) \<and> \<not> is_done (objs w1 r)"
    by blast
  from Cons.IH[OF d wf] obtain w' bt' where
    "run_loop (w1, bt1) rows = Inr (w', bt')" "distinct (orders bt')"
    "\<forall>r\<in>set (orders bt'). well_formed (objs w' r) \<and> \<not> is_done (objs w' r)"
    "set (orders bt') \<subseteq> set (orders bt1)"
    by blast
  with t o row show ?case by auto
qed

text \<open>The pair invariant is kept by every update.\<close>
lemma oco_pair_step:
  assumes ab: "a \<noteq> b"
      and u: "Order_update v r ts p = Inr v1"
      and pa: "oco_peer (objs v a) = Some b" and pb: "oco_peer (objs v b) = Some a"
      and ia: "status (objs v a) = FILLED \<longrightarrow> status (objs v b) = CANCELLED"
      and ib: "status (objs v b) = FILLED \<longrightarrow> status (objs v a) = CANCELLED"
  shows "oco_peer (objs v1 a) = Some b" and "oco_peer (objs v1 b) = Some a"
    and "status (objs v1 a) = FILLED \<longrightarrow> status (objs v1 b) = CANCELLED"
    and "status (objs v1 b) = FILLED \<longrightarrow> status (objs v1 a) = CANCELLED"
proof -
  show "oco_peer (objs v1 a) = Some b" "oco_peer (objs v1 b) = Some a"
    using Order_update_frame(6)[OF u] pa pb by simp_all
  have one: "status (objs v1 x) = FILLED \<longrightarrow> status (objs v1 y) = CANCELLED"
    if xy: "x \<noteq> y" and px: "oco_peer (objs v x) = Some y"
      and ix: "status (objs v x) = FILLED \<longrightarrow> status (objs v y) = CANCELLED"
      and iy: "status (objs v y) = FILLED \<longrightarrow> status (objs v x) = CANCELLED"
    for x y
  proof
    assume f1: "status (objs v1 x) = FILLED"
    show "status (objs v1 y) = CANCELLED"
    proof (cases "status (objs v x) = FILLED")
      case True
      with ix have c: "status (objs v y) = CANCELLED" by simp
      then have "is_done (objs v y)" by (simp add: is_done_def)
      from Order_update_frame(7)[OF u this] c show ?thesis by simp
    next
      case False
      have rx: "r = x"
        using Order_update_other_filled[OF u, of x] f1 False by auto
      note bf = Order_update_becomes_filled[OF u[unfolded rx] False f1[unfolded rx]]
      show ?thesis
      proof (cases "is_done (objs v y)")
        case False
        from bf(5)[OF px _ False] xy show ?thesis by (simp add: rx)
      next
        case True
        have "status (objs v y) \<noteq> FILLED"
          using iy bf(1) by (auto simp: is_done_def)
        with True have c: "status (objs v y) = CANCELLED" by (simp add: is_done_def)
        from Order_update_frame(7)[OF u True] c show ?thesis by simp
      qed
    qed
  qed
  show "status (objs v1 a) = FILLED \<longrightarrow> status (objs v1 b) = CANCELLED"
    by (rule one[OF ab pa ia ib])
  show "status (objs v1 b) = FILLED \<longrightarrow> status (objs v1 a) = CANCELLED"
    by (rule one[OF ab[symmetric] pb ib ia])
qed

text \<open>A FILLED line in the output means the order is FILLED; kept by every update.\<close>
lemma printed_fill_step:
  assumes u: "Order_update v r ts p = Inr v1"
      and n: "n \<le> length (stdout v)"
      and k: "\<forall>t. PrintFilled t x \<in> set (drop n (stdout v)) \<longrightarrow> status (objs v x) = FILLED"
  shows "n \<le> length (stdout v1)"
    and "\<forall>t. PrintFilled t x \<in> set (drop n (stdout v1)) \<longrightarrow> status (objs v1 x) = FILLED"
proof -
  from Order_update_stdout[OF u] obtain evs where
    e: "stdout v1 = stdout v @ evs" and
    f: "\<forall>t y. PrintFilled t y \<in> set evs \<longrightarrow> y = r \<and> t = ts \<and> status (objs v r) \<noteq> FILLED \<and> status (objs v1 r) = FILLED"
    by blast
  show "n \<le> length (stdout v1)" using e n by simp
  show "\<forall>t. PrintFilled t x \<in> set (drop n (stdout v1)) \<longrightarrow> status (objs v1 x) = FILLED"
  proof (intro allI impI)
    fix t assume "PrintFilled t x \<in> set (drop n (stdout v1))"
    then have "PrintFilled t x \<in> set (drop n (stdout v)) \<or> PrintFilled t x \<in> set evs"
      using e n by auto
    then show "status (objs v1 x) = FILLED"
    proof
      assume "PrintFilled t x \<in> set (drop n (stdout v))"
      with k have s: "status (objs v x) = FILLED" by blast
      then have "is_done (objs v x)" by (simp add: is_done_def)
      from Order_update_frame(7)[OF u this] s show ?thesis by simp
    next
      assume "PrintFilled t x \<in> set evs"
      with f show ?thesis by blast
    qed
  qed
qed

text \<open>
  \<open>place_oco_order\<close> does not raise, and extends an open set of distinct, well-formed,
  not-done orders by two fresh orders that name each other as peers; the extended open set
  is again distinct, well-formed and not done.
\<close>

lemma place_oco_order_open_set:
  assumes "distinct (orders bt)"
      and "\<forall>r\<in>set (orders bt). r < next_ref w \<and> well_formed (objs w r) \<and> \<not> is_done (objs w r)"
  shows "\<exists>w' bt'. place_oco_order (w, bt) qty tp sl = Inr (w', bt') \<and>
      orders bt' = orders bt @ [next_ref w, Suc (next_ref w)] \<and>
      next_ref w' = Suc (Suc (next_ref w)) \<and>
      oco_peer (objs w' (next_ref w)) = Some (Suc (next_ref w)) \<and>
      oco_peer (objs w' (Suc (next_ref w))) = Some (next_ref w) \<and>
      distinct (orders bt') \<and>
      (\<forall>r\<in>set (orders bt').
          r < next_ref w' \<and> well_formed (objs w' r) \<and> \<not> is_done (objs w' r))"
proof -
  let ?n = "next_ref w"
  let ?tp = "\<lparr> order_type = ''LIMIT'', side = ''SELL'', quantity = qty, price = Some tp,
       trigger_price = None, status = PENDING, created_at = None, filled_at = None,
       filled_price = None, oco_peer = Some (Suc ?n) \<rparr>"
  let ?sl = "\<lparr> order_type = ''STOP_LIMIT'', side = ''SELL'', quantity = qty, price = Some sl,
       trigger_price = Some sl, status = PENDING, created_at = None, filled_at = None,
       filled_price = None, oco_peer = Some ?n \<rparr>"
  let ?w' = "w\<lparr>objs := (objs w)(?n := ?tp, Suc ?n := ?sl), next_ref := Suc (Suc ?n)\<rparr>"
  have p: "place_oco_order (w, bt) qty tp sl = Inr (?w', bt\<lparr>orders := orders bt @ [?n, Suc ?n]\<rparr>)"
    by (simp add: place_oco_order_def Order_init_def Order_validate_def upper_consts upper_LIMIT
        new_object_def link_oco_peer_def Let_def fun_upd_twist)
  have old: "\<forall>r\<in>set (orders bt). r \<noteq> ?n \<and> r \<noteq> Suc ?n" using assms(2) by auto
  have new: "well_formed ?tp" "well_formed ?sl" "\<not> is_done ?tp" "\<not> is_done ?sl"
    by (simp_all add: well_formed_def Order_validate_def is_done_def)
  show ?thesis unfolding p using assms old new by auto
qed

text \<open>The concrete pair is a well-formed open set, and its replay.\<close>

lemma pair_well_formed:
  "well_formed (objs pair_world 0)" "well_formed (objs pair_world 1)"
  "\<not> is_done (objs pair_world 0)" "\<not> is_done (objs pair_world 1)"
  by (simp_all add: pair_world_def tp_leg_def sl_leg_def well_formed_def Order_validate_def
      is_done_def)

lemma pair_open_set:
  "distinct (orders pair_backtester)"
  "\<forall>r\<in>set (orders pair_backtester). well_formed (objs pair_world r) \<and> \<not> is_done (objs pair_world r)"
  using pair_well_formed by (simp_all add: pair_backtester_def)

lemma pair_replay:
  "\<exists>w bt. run_loop (pair_world, pair_backtester) [(1, 100), (2, 102), (3, 97), (4, 99)] = Inr (w, bt) \<and>
      status (objs w 1) = FILLED \<and> status (objs w 0) = CANCELLED \<and>
      stdout w = [PrintActivated 3 1, PrintFilled 4 1, PrintCancelled 4 0]"
  by (simp add: run_defs pair_backtester_def)

subsection \<open>The OCO pair\<close>

text \<open>
  Claim C1. Two distinct orders that name each other as \<open>oco_peer\<close> and are not done, in
  a store whose open set holds distinct, well-formed orders that are not done (what
  \<open>place_oco_order\<close> builds and every tick keeps): the replay loop over any rows returns,
  and afterwards the two legs are not both FILLED; a FILLED leg has a CANCELLED peer; and
  the loop has not printed a FILLED line for both legs, so at no moment of the replay were
  both FILLED. Since every prefix of the rows is a list of rows, this holds after every
  tick. Moreover, in any state, an \<open>update\<close> that turns a leg FILLED leaves the peer
  CANCELLED when the call returns, unless the peer was done already, which is then
  untouched.
\<close>

theorem oco_never_both_filled:
  fixes w :: "('a::{ord,plus,minus,times}, 't) world"
  assumes "a \<noteq> b"
      and "oco_peer (objs w a) = Some b" and "oco_peer (objs w b) = Some a"
      and "\<not> is_done (objs w a)" and "\<not> is_done (objs w b)"
      and "distinct (orders bt)"
      and "\<forall>r\<in>set (orders bt). well_formed (objs w r) \<and> \<not> is_done (objs w r)"
  shows "(\<exists>w' bt'. run_loop (w, bt) rows = Inr (w', bt') \<and>
            \<not> (status (objs w' a) = FILLED \<and> status (objs w' b) = FILLED) \<and>
            (status (objs w' a) = FILLED \<longrightarrow> status (objs w' b) = CANCELLED) \<and>
            (status (objs w' b) = FILLED \<longrightarrow> status (objs w' a) = CANCELLED) \<and>
            \<not> ((\<exists>t. PrintFilled t a \<in> set (drop (length (stdout w)) (stdout w'))) \<and>
               (\<exists>t. PrintFilled t b \<in> set (drop (length (stdout w)) (stdout w'))))) \<and>
         (\<forall>(v :: ('a, 't) world) t q v1.
            oco_peer (objs v a) = Some b \<longrightarrow> Order_update v a t q = Inr v1 \<longrightarrow>
            status (objs v a) \<noteq> FILLED \<longrightarrow> status (objs v1 a) = FILLED \<longrightarrow>
              (if is_done (objs v b) then objs v1 b = objs v b
               else status (objs v1 b) = CANCELLED))"
proof
  define n where "n = length (stdout w)"
  define P :: "('a, 't) world \<Rightarrow> bool" where
    "P = (\<lambda>v. oco_peer (objs v a) = Some b \<and> oco_peer (objs v b) = Some a \<and>
       (status (objs v a) = FILLED \<longrightarrow> status (objs v b) = CANCELLED) \<and>
       (status (objs v b) = FILLED \<longrightarrow> status (objs v a) = CANCELLED) \<and>
       n \<le> length (stdout v) \<and>
       (\<forall>t. PrintFilled t a \<in> set (drop n (stdout v)) \<longrightarrow> status (objs v a) = FILLED) \<and>
       (\<forall>t. PrintFilled t b \<in> set (drop n (stdout v)) \<longrightarrow> status (objs v b) = FILLED))"
  have step: "P v1" if "P v" "Order_update v r t q = Inr v1" for v r t q v1
  proof -
    from that(1) have pv: "oco_peer (objs v a) = Some b" "oco_peer (objs v b) = Some a"
      "status (objs v a) = FILLED \<longrightarrow> status (objs v b) = CANCELLED"
      "status (objs v b) = FILLED \<longrightarrow> status (objs v a) = CANCELLED"
      "n \<le> length (stdout v)"
      "\<forall>t. PrintFilled t a \<in> set (drop n (stdout v)) \<longrightarrow> status (objs v a) = FILLED"
      "\<forall>t. PrintFilled t b \<in> set (drop n (stdout v)) \<longrightarrow> status (objs v b) = FILLED"
      by (simp_all add: P_def)
    note s = oco_pair_step[OF assms(1) that(2) pv(1-4)]
    note fa = printed_fill_step[OF that(2) pv(5) pv(6)]
    note fb = printed_fill_step[OF that(2) pv(5) pv(7)]
    show ?thesis unfolding P_def using s fa fb by blast
  qed
  have init: "P (fst (w, bt))"
    using assms(2-5) by (simp add: P_def n_def is_done_def)
  from run_loop_total[OF assms(6,7), of rows] obtain w' bt' where
    run: "run_loop (w, bt) rows = Inr (w', bt')" by blast
  have "P (fst (w', bt'))"
    by (rule run_loop_invariant[where P = P, OF step init run])
  then have "P w'" by simp
  then have "\<not> (status (objs w' a) = FILLED \<and> status (objs w' b) = FILLED) \<and>
            (status (objs w' a) = FILLED \<longrightarrow> status (objs w' b) = CANCELLED) \<and>
            (status (objs w' b) = FILLED \<longrightarrow> status (objs w' a) = CANCELLED) \<and>
            \<not> ((\<exists>t. PrintFilled t a \<in> set (drop (length (stdout w)) (stdout w'))) \<and>
               (\<exists>t. PrintFilled t b \<in> set (drop (length (stdout w)) (stdout w'))))"
    unfolding P_def n_def by auto
  with run show "\<exists>w' bt'. run_loop (w, bt) rows = Inr (w', bt') \<and>
            \<not> (status (objs w' a) = FILLED \<and> status (objs w' b) = FILLED) \<and>
            (status (objs w' a) = FILLED \<longrightarrow> status (objs w' b) = CANCELLED) \<and>
            (status (objs w' b) = FILLED \<longrightarrow> status (objs w' a) = CANCELLED) \<and>
            \<not> ((\<exists>t. PrintFilled t a \<in> set (drop (length (stdout w)) (stdout w'))) \<and>
               (\<exists>t. PrintFilled t b \<in> set (drop (length (stdout w)) (stdout w'))))"
    by blast
next
  show "\<forall>(v :: ('a, 't) world) t q v1.
            oco_peer (objs v a) = Some b \<longrightarrow> Order_update v a t q = Inr v1 \<longrightarrow>
            status (objs v a) \<noteq> FILLED \<longrightarrow> status (objs v1 a) = FILLED \<longrightarrow>
              (if is_done (objs v b) then objs v1 b = objs v b
               else status (objs v1 b) = CANCELLED)"
  proof (intro allI impI)
    fix v :: "('a, 't) world" and t q v1
    assume pa: "oco_peer (objs v a) = Some b" and u: "Order_update v a t q = Inr v1"
      and nf: "status (objs v a) \<noteq> FILLED" and f: "status (objs v1 a) = FILLED"
    show "if is_done (objs v b) then objs v1 b = objs v b else status (objs v1 b) = CANCELLED"
    proof (cases "is_done (objs v b)")
      case True
      with Order_update_frame(7)[OF u True] show ?thesis by simp
    next
      case False
      from Order_update_becomes_filled(5)[OF u nf f pa _ False] assms(1) False
      show ?thesis by auto
    qed
  qed
qed

theorem oco_never_both_filled_witness:
  "(0::nat) \<noteq> 1 \<and> oco_peer (objs pair_world 0) = Some 1 \<and> oco_peer (objs pair_world 1) = Some 0 \<and>
   \<not> is_done (objs pair_world 0) \<and> \<not> is_done (objs pair_world 1) \<and>
   distinct (orders pair_backtester) \<and>
   well_formed (objs pair_world 0) \<and> well_formed (objs pair_world 1) \<and>
   (\<exists>w' bt'. run_loop (pair_world, pair_backtester) [(1, 100), (2, 102), (3, 97), (4, 99)]
        = Inr (w', bt') \<and>
      status (objs w' 1) = FILLED \<and> status (objs w' 0) = CANCELLED \<and>
      \<not> (status (objs w' 0) = FILLED \<and> status (objs w' 1) = FILLED) \<and>
      \<not> ((\<exists>t. PrintFilled t 0 \<in> set (drop (length (stdout pair_world)) (stdout w'))) \<and>
         (\<exists>t. PrintFilled t 1 \<in> set (drop (length (stdout pair_world)) (stdout w')))))"
proof -
  have ne: "(0::nat) \<noteq> 1" by simp
  from oco_never_both_filled[OF ne pair_world_facts(10,11) pair_well_formed(3,4) pair_open_set,
      of "[(1, 100), (2, 102), (3, 97), (4, 99)]"]
  obtain w' bt' where
    run: "run_loop (pair_world, pair_backtester) [(1, 100), (2, 102), (3, 97), (4, 99)] = Inr (w', bt')"
    and nb: "\<not> (status (objs w' 0) = FILLED \<and> status (objs w' 1) = FILLED)"
    and np: "\<not> ((\<exists>t. PrintFilled t 0 \<in> set (drop (length (stdout pair_world)) (stdout w'))) \<and>
         (\<exists>t. PrintFilled t 1 \<in> set (drop (length (stdout pair_world)) (stdout w'))))"
    by blast
  from pair_replay run have "status (objs w' 1) = FILLED \<and> status (objs w' 0) = CANCELLED"
    by auto
  with run nb np ne pair_world_facts(10,11) pair_well_formed pair_open_set(1)
  show ?thesis by blast
qed

subsection \<open>One tick of the replay\<close>

text \<open>An order that the inner loop turns FILLED carries the tick's price and timestamp.\<close>

lemma run_orders_fill_fields:
  assumes "run_orders s rs ts p = Inr s'" and "status (objs (fst s) r) \<noteq> FILLED"
  shows "status (objs (fst s') r) = FILLED \<longrightarrow>
           filled_price (objs (fst s') r) = Some p \<and> filled_at (objs (fst s') r) = Some ts"
proof (rule run_orders_invariant[where P = "\<lambda>v. status (objs v r) = FILLED \<longrightarrow>
           filled_price (objs v r) = Some p \<and> filled_at (objs v r) = Some ts", OF _ _ assms(1)])
  show "status (objs (fst s) r) = FILLED \<longrightarrow>
           filled_price (objs (fst s) r) = Some p \<and> filled_at (objs (fst s) r) = Some ts"
    using assms(2) by simp
next
  fix v x v1
  assume P: "status (objs v r) = FILLED \<longrightarrow>
           filled_price (objs v r) = Some p \<and> filled_at (objs v r) = Some ts"
    and u: "Order_update v x ts p = Inr v1"
  show "status (objs v1 r) = FILLED \<longrightarrow>
           filled_price (objs v1 r) = Some p \<and> filled_at (objs v1 r) = Some ts"
  proof
    assume f: "status (objs v1 r) = FILLED"
    show "filled_price (objs v1 r) = Some p \<and> filled_at (objs v1 r) = Some ts"
    proof (cases "status (objs v r) = FILLED")
      case True
      then have "is_done (objs v r)" by (simp add: is_done_def)
      from Order_update_frame(7)[OF u this] P True show ?thesis by simp
    next
      case False
      have "x = r" using Order_update_other_filled[OF u, of r] f False by auto
      with Order_update_becomes_filled(2,3)[OF u[unfolded this] False f] show ?thesis by simp
    qed
  qed
qed

text \<open>The tick at price 106 on the concrete pair: the take-profit leg fills.\<close>

lemma pair_tick:
  "run_tick (pair_world, pair_backtester) (4, 106) =
     Inr (Order_fill (update_created pair_world 0 4) 0 4 106,
          \<lparr> initial_cash = 10000, cash = 10006, position_size = 0,
            trade_log = [\<lparr> trade_timestamp = Some 4, trade_type = ''SELL'', trade_price = Some 106 \<rparr>],
            orders = [] \<rparr>)"
  by (simp add: run_defs pair_backtester_def)

text \<open>
  The source's inner loop refines the spec's words: the store it leaves is the one
  \<open>observe_all\<close> computes, the ledger calls in between do not touch any order.
\<close>

lemma run_orders_observe_all:
  assumes "run_orders s rs ts p = Inr s'"
  shows "observe_all (fst s) rs ts p = Inr (fst s')"
  using assms
proof (induction rs arbitrary: s)
  case Nil
  then show ?case by simp
next
  case (Cons r rest)
  from Cons.prems obtain w1 where u: "Order_update (fst s) r ts p = Inr w1"
    by (auto split: sum.splits)
  from Cons.prems u obtain bt1 where run1: "run_orders (w1, bt1) rest ts p = Inr s'"
    by (auto split: sum.splits if_splits)
  from Cons.IH[OF run1] u show ?case by simp
qed

text \<open>Observing a list of orders is observing a prefix and then the rest.\<close>

lemma observe_all_append:
  "observe_all w (xs @ ys) ts p =
     (case observe_all w xs ts p of Inl e \<Rightarrow> Inl e | Inr v \<Rightarrow> observe_all v ys ts p)"
  by (induction xs arbitrary: w) (auto split: sum.splits)

text \<open>A property that every \<open>Order.update\<close> keeps holds after observing a list.\<close>

lemma observe_all_invariant:
  assumes "\<And>v r v1. r \<in> set rs \<Longrightarrow> P v \<Longrightarrow> Order_update v r ts p = Inr v1 \<Longrightarrow> P v1"
      and "P w" and "observe_all w rs ts p = Inr w'"
  shows "P w'"
  using assms
proof (induction rs arbitrary: w)
  case Nil
  then show ?case by simp
next
  case (Cons r rest)
  from Cons.prems(3) obtain w1 where u: "Order_update w r ts p = Inr w1"
    and o: "observe_all w1 rest ts p = Inr w'"
    by (auto split: sum.splits)
  have p1: "P w1" using Cons.prems(1)[OF _ Cons.prems(2) u] by simp
  show ?case
  proof (rule Cons.IH[OF _ p1 o])
    fix v x v1 assume "x \<in> set rest" "P v" "Order_update v x ts p = Inr v1"
    then show "P v1" using Cons.prems(1)[of x v v1] by simp
  qed
qed

text \<open>
  Whether an order of a duplicate-free list is FILLED after the tick is decided at its own
  observation, on the store the orders before it have left; the orders after it cannot
  fill it.
\<close>

lemma observe_all_decided:
  assumes "distinct rs" and "observe_all w rs ts p = Inr w'" and "rs = xs @ r # ys"
  shows "\<exists>v0 v. observe_all w xs ts p = Inr v0 \<and> Order_update v0 r ts p = Inr v \<and>
           (status (objs w' r) = FILLED \<longleftrightarrow> status (objs v r) = FILLED)"
proof -
  from assms(2,3) have "observe_all w (xs @ r # ys) ts p = Inr w'" by simp
  then obtain v0 where a: "observe_all w xs ts p = Inr v0"
    and b: "observe_all v0 (r # ys) ts p = Inr w'"
    unfolding observe_all_append by (auto split: sum.splits)
  from b obtain v where u: "Order_update v0 r ts p = Inr v" and c: "observe_all v ys ts p = Inr w'"
    by (auto split: sum.splits)
  have rn: "r \<notin> set ys" using assms(1,3) by auto
  have "status (objs w' r) = FILLED \<longleftrightarrow> status (objs v r) = FILLED"
  proof (rule observe_all_invariant[where P = "\<lambda>u. status (objs u r) = FILLED \<longleftrightarrow> status (objs v r) = FILLED",
        OF _ _ c])
    show "status (objs v r) = FILLED \<longleftrightarrow> status (objs v r) = FILLED" by simp
  next
    fix u x u1
    assume "x \<in> set ys" "(status (objs u r) = FILLED) = (status (objs v r) = FILLED)"
      "Order_update u x ts p = Inr u1"
    with rn Order_update_other_filled[of u x ts p u1 r]
    show "(status (objs u1 r) = FILLED) = (status (objs v r) = FILLED)" by auto
  qed
  with a u show ?thesis by blast
qed

text \<open>The pair with equal prices is what \<open>place_oco_order(1, 100, 100)\<close> builds.\<close>

lemma place_tie:
  "place_oco_order (empty_world blank_order, bt) 1 100 100
     = Inr (tie_world, bt\<lparr>orders := orders bt @ [0, 1]\<rparr>)"
  by (simp add: place_oco_order_def Order_init_def Order_validate_def upper_consts upper_LIMIT
      new_object_def link_oco_peer_def empty_world_def tie_world_def
      tp_leg_def sl_leg_def blank_order_def Let_def fun_eq_iff)

text \<open>It is a duplicate-free open set of well-formed orders that are not done.\<close>

lemma tie_open_set:
  "distinct (orders pair_backtester)"
  "\<forall>r\<in>set (orders pair_backtester). well_formed (objs tie_world r) \<and> \<not> is_done (objs tie_world r)"
  by (simp_all add: pair_backtester_def tie_world_def tp_leg_def sl_leg_def well_formed_def
      Order_validate_def is_done_def)

text \<open>
  The tick at price 100 on it: the loop reaches the take-profit leg first, which fills and
  cancels the stop-loss leg before that one is observed.
\<close>

lemma tie_tick:
  "\<exists>w' bt'. run_tick (tie_world, pair_backtester) (1, 100) = Inr (w', bt') \<and>
      status (objs w' 0) = FILLED \<and> status (objs w' 1) = CANCELLED \<and>
      stdout w' = [PrintFilled 1 0, PrintCancelled 1 1] \<and>
      cash bt' = 10000 \<and> position_size bt' = 0 \<and>
      trade_log bt' = [\<lparr> trade_timestamp = Some 1, trade_type = ''SELL'', trade_price = Some 100 \<rparr>] \<and>
      orders bt' = []"
  by (simp add: run_defs pair_backtester_def tie_world_def)

text \<open>
  Observed in the opposite order the stop-loss leg would activate and fill, and the
  take-profit leg be cancelled: on this pair the order of observation decides the outcome.
\<close>

lemma tie_reversed:
  "\<exists>w'. observe_all tie_world [1, 0] 1 100 = Inr w' \<and>
      status (objs w' 1) = FILLED \<and> status (objs w' 0) = CANCELLED"
  by (simp add: run_defs tie_world_def)

text \<open>The inner loop on a list is the loop on a prefix, then on the rest.\<close>

lemma run_orders_append:
  "run_orders s (xs @ ys) ts p =
     (case run_orders s xs ts p of Inl e \<Rightarrow> Inl e | Inr s1 \<Rightarrow> run_orders s1 ys ts p)"
  by (induction xs arbitrary: s) (auto split: sum.splits)

text \<open>
  The inner loop, order by order. At any position of the open set: the loop on the orders
  before it returns; the order is then observed on the store they left; straight after
  that observation, and before any later order is observed, the ledger has its entry if
  the order filled and is untouched otherwise; and the rest of the loop does not change
  whether the order is FILLED.
\<close>

lemma run_orders_positions:
  fixes w :: "('a::{ord,plus,minus,times}, 't) world"
  assumes d: "distinct rs"
      and wf: "\<forall>r\<in>set rs. well_formed (objs w r) \<and> status (objs w r) \<noteq> FILLED"
      and run: "run_orders (w, bt) rs ts p = Inr (w', bt1)"
      and split: "rs = xs @ r # ys"
  shows "\<exists>v0 b0 v b.
      run_orders (w, bt) xs ts p = Inr (v0, b0) \<and> observe_all w xs ts p = Inr v0 \<and>
      Order_update v0 r ts p = Inr v \<and>
      run_orders (w, bt) (xs @ [r]) ts p = Inr (v, b) \<and>
      run_orders (v, b) ys ts p = Inr (w', bt1) \<and>
      (status (objs w' r) = FILLED \<longleftrightarrow> status (objs v r) = FILLED) \<and>
      trade_log b = trade_log b0 @
        (if status (objs v r) = FILLED
         then [\<lparr> trade_timestamp = Some ts, trade_type = side (objs w r), trade_price = Some p \<rparr>]
         else []) \<and>
      cash b = (if status (objs v r) = FILLED
                then (if is_buy (objs w r) then cash b0 - p * quantity (objs w r)
                      else cash b0 + p * quantity (objs w r))
                else cash b0) \<and>
      position_size b = (if status (objs v r) = FILLED
                then (if is_buy (objs w r) then position_size b0 + quantity (objs w r)
                      else position_size b0 - quantity (objs w r))
                else position_size b0)"
proof -
  have dx: "distinct xs" and rx: "r \<notin> set xs" using d split by auto
  have wfx: "\<forall>x\<in>set xs. well_formed (objs w x) \<and> status (objs w x) \<noteq> FILLED"
    using wf split by auto
  have wr: "well_formed (objs w r)" "status (objs w r) \<noteq> FILLED" using wf split by auto
  from run_orders_ledger[OF dx wfx, of "\<lambda>x. side (objs w x)" "\<lambda>x. quantity (objs w x)" bt ts p]
  obtain v0 b0 where r0: "run_orders (w, bt) xs ts p = Inr (v0, b0)" by auto
  have o0: "observe_all w xs ts p = Inr v0"
    using run_orders_observe_all[OF r0] by simp
  have inv0: "well_formed (objs v0 r) \<and> status (objs v0 r) \<noteq> FILLED \<and>
      (\<forall>x. side (objs v0 x) = side (objs w x)) \<and> (\<forall>x. quantity (objs v0 x) = quantity (objs w x))"
  proof -
    have "well_formed (objs (fst (v0, b0)) r) \<and> status (objs (fst (v0, b0)) r) \<noteq> FILLED \<and>
      (\<forall>x. side (objs (fst (v0, b0)) x) = side (objs w x)) \<and>
      (\<forall>x. quantity (objs (fst (v0, b0)) x) = quantity (objs w x))"
    proof (rule run_orders_invariant[where P = "\<lambda>u. well_formed (objs u r) \<and> status (objs u r) \<noteq> FILLED \<and>
          (\<forall>x. side (objs u x) = side (objs w x)) \<and> (\<forall>x. quantity (objs u x) = quantity (objs w x))"
          and s = "(w, bt)", OF _ _ r0])
      show "well_formed (objs (fst (w, bt)) r) \<and> status (objs (fst (w, bt)) r) \<noteq> FILLED \<and>
        (\<forall>x. side (objs (fst (w, bt)) x) = side (objs w x)) \<and>
        (\<forall>x. quantity (objs (fst (w, bt)) x) = quantity (objs w x))"
        using wr by simp
    next
      fix u x u1
      assume x: "x \<in> set xs"
        and P: "well_formed (objs u r) \<and> status (objs u r) \<noteq> FILLED \<and>
          (\<forall>x. side (objs u x) = side (objs w x)) \<and> (\<forall>x. quantity (objs u x) = quantity (objs w x))"
        and u: "Order_update u x ts p = Inr u1"
      from x rx have "r \<noteq> x" by auto
      with Order_update_other_filled[OF u, of r] P have "status (objs u1 r) \<noteq> FILLED" by simp
      moreover have "well_formed (objs u1 r)" using Order_update_well_formed[OF u] P by blast
      moreover have "\<forall>x. side (objs u1 x) = side (objs w x)"
        using Order_update_frame(2)[OF u] P by simp
      moreover have "\<forall>x. quantity (objs u1 x) = quantity (objs w x)"
        using Order_update_frame(3)[OF u] P by simp
      ultimately show "well_formed (objs u1 r) \<and> status (objs u1 r) \<noteq> FILLED \<and>
          (\<forall>x. side (objs u1 x) = side (objs w x)) \<and> (\<forall>x. quantity (objs u1 x) = quantity (objs w x))"
        by blast
    qed
    then show ?thesis by simp
  qed
  have d1: "distinct [r]" by simp
  have wf1: "\<forall>x\<in>set [r]. well_formed (objs v0 x) \<and> status (objs v0 x) \<noteq> FILLED"
    using inv0 by simp
  have sd1: "\<forall>x. side (objs v0 x) = (\<lambda>x. side (objs w x)) x"
    and qt1: "\<forall>x. quantity (objs v0 x) = (\<lambda>x. quantity (objs w x)) x"
    using inv0 by simp_all
  from run_orders_ledger[OF d1 wf1 sd1 qt1, of b0 ts p]
  obtain v b where r1: "run_orders (v0, b0) [r] ts p = Inr (v, b)"
    and l: "trade_log b = trade_log b0 @
        map (\<lambda>r. \<lparr> trade_timestamp = Some ts, trade_type = side (objs w r), trade_price = Some p \<rparr>)
          (filter (\<lambda>r. status (objs v r) = FILLED) [r])"
      "cash b = foldl (\<lambda>c r. if side (objs w r) = ''BUY'' then c - p * quantity (objs w r)
                               else c + p * quantity (objs w r)) (cash b0)
          (filter (\<lambda>r. status (objs v r) = FILLED) [r])"
      "position_size b = foldl (\<lambda>z r. if side (objs w r) = ''BUY'' then z + quantity (objs w r)
                               else z - quantity (objs w r)) (position_size b0)
          (filter (\<lambda>r. status (objs v r) = FILLED) [r])"
    by blast
  from r1 have u: "Order_update v0 r ts p = Inr v"
    by (auto split: sum.splits if_splits)
  have r01: "run_orders (w, bt) (xs @ [r]) ts p = Inr (v, b)"
    using r0 r1 by (simp add: run_orders_append)
  have "run_orders (w, bt) ((xs @ [r]) @ ys) ts p = Inr (w', bt1)"
    using run split by simp
  then have r2: "run_orders (v, b) ys ts p = Inr (w', bt1)"
    unfolding run_orders_append[of _ "xs @ [r]" ys] using r01 by simp
  have ow: "observe_all w rs ts p = Inr w'"
    using run_orders_observe_all[OF run] by simp
  from observe_all_decided[OF d ow split] o0 u
  have dec: "status (objs w' r) = FILLED \<longleftrightarrow> status (objs v r) = FILLED" by auto
  from r0 o0 u r01 r2 dec l show ?thesis
    by (simp add: is_buy_def)
qed

text \<open>
  Claim C8. One tick of the replay on an open set of distinct, well-formed orders that
  are not done (what \<open>place_oco_order\<close> builds and every tick keeps) returns, and:
  the store of orders after the tick is exactly the one obtained by observing every order
  of the open set once, in the insertion order of that set, each on the store its
  predecessors have left (\<open>observe_all\<close>, the spec's words);
  at every position of the open set the order there is observed after the orders before
  it, whether it is FILLED at the end of the tick is decided by that observation, and
  straight after it, before the next order is observed, the ledger has received its
  entry: when the order filled, one trade-log entry, cash down by price times quantity for
  a buy and up for a sell, the position the other way; and nothing when it did not fill
  (it is open or CANCELLED);
  every order of the open set has been observed (it is done, or stamped with a first
  observation); an order that is FILLED afterwards was filled at the tick's price and
  timestamp and is a buy or a sell; over the whole tick the trade log has grown by one
  entry per such order, in the insertion order of the open set, cash and position have
  changed by the fills applied in that order, and when no order of the open set is FILLED
  the ledger is unchanged; and the open set afterwards is the old one without the done
  orders, again distinct, well-formed and not done, so the next tick starts from the same
  conditions.
  The instance below is the pair whose legs can both fill at 100: in insertion order the
  take-profit leg fills and the stop-loss leg is cancelled, while observation in the
  opposite order would fill the stop-loss leg instead.
\<close>

theorem replay_tick_ledger:
  fixes w :: "('a::{ord,plus,minus,times}, 't) world"
  assumes "distinct (orders bt)"
      and "\<forall>r\<in>set (orders bt). well_formed (objs w r) \<and> \<not> is_done (objs w r)"
  shows "\<exists>w' bt'. run_tick (w, bt) (ts, p) = Inr (w', bt') \<and>
      observe_all w (orders bt) ts p = Inr w' \<and>
      (\<forall>xs r ys. orders bt = xs @ r # ys \<longrightarrow>
         (\<exists>v0 b0 v b.
            run_orders (w, bt) xs ts p = Inr (v0, b0) \<and> observe_all w xs ts p = Inr v0 \<and>
            Order_update v0 r ts p = Inr v \<and>
            run_orders (w, bt) (xs @ [r]) ts p = Inr (v, b) \<and>
            (status (objs w' r) = FILLED \<longleftrightarrow> status (objs v r) = FILLED) \<and>
            trade_log b = trade_log b0 @
              (if status (objs v r) = FILLED
               then [\<lparr> trade_timestamp = Some ts, trade_type = side (objs w r),
                       trade_price = Some p \<rparr>]
               else []) \<and>
            cash b = (if status (objs v r) = FILLED
                      then (if is_buy (objs w r) then cash b0 - p * quantity (objs w r)
                            else cash b0 + p * quantity (objs w r))
                      else cash b0) \<and>
            position_size b = (if status (objs v r) = FILLED
                      then (if is_buy (objs w r) then position_size b0 + quantity (objs w r)
                            else position_size b0 - quantity (objs w r))
                      else position_size b0))) \<and>
      (\<forall>r\<in>set (orders bt). is_done (objs w' r) \<or> created_at (objs w' r) \<noteq> None) \<and>
      (\<forall>r\<in>set (orders bt). status (objs w' r) = FILLED \<longrightarrow>
          filled_price (objs w' r) = Some p \<and> filled_at (objs w' r) = Some ts \<and>
          (is_buy (objs w r) \<or> is_sell (objs w r))) \<and>
      trade_log bt' = trade_log bt @
        map (\<lambda>r. \<lparr> trade_timestamp = Some ts, trade_type = side (objs w r), trade_price = Some p \<rparr>)
          (filter (\<lambda>r. status (objs w' r) = FILLED) (orders bt)) \<and>
      cash bt' = foldl (\<lambda>c r. if is_buy (objs w r) then c - p * quantity (objs w r)
                               else c + p * quantity (objs w r)) (cash bt)
          (filter (\<lambda>r. status (objs w' r) = FILLED) (orders bt)) \<and>
      position_size bt' = foldl (\<lambda>z r. if is_buy (objs w r) then z + quantity (objs w r)
                               else z - quantity (objs w r)) (position_size bt)
          (filter (\<lambda>r. status (objs w' r) = FILLED) (orders bt)) \<and>
      ((\<forall>r\<in>set (orders bt). status (objs w' r) \<noteq> FILLED) \<longrightarrow>
          trade_log bt' = trade_log bt \<and> cash bt' = cash bt \<and>
          position_size bt' = position_size bt) \<and>
      orders bt' = filter (\<lambda>r. \<not> is_done (objs w' r)) (orders bt) \<and>
      distinct (orders bt') \<and>
      (\<forall>r\<in>set (orders bt'). well_formed (objs w' r) \<and> \<not> is_done (objs w' r))"
proof -
  from run_tick_step[OF assms, of ts p] obtain w' bt' where
    t: "run_tick (w, bt) (ts, p) = Inr (w', bt')" and
    o: "orders bt' = filter (\<lambda>r. \<not> is_done (objs w' r)) (orders bt)" and
    l: "trade_log bt' = trade_log bt @
        map (\<lambda>r. \<lparr> trade_timestamp = Some ts, trade_type = side (objs w r), trade_price = Some p \<rparr>)
          (filter (\<lambda>r. status (objs w' r) = FILLED) (orders bt))"
       "cash bt' = foldl (\<lambda>c r. if is_buy (objs w r) then c - p * quantity (objs w r)
                               else c + p * quantity (objs w r)) (cash bt)
          (filter (\<lambda>r. status (objs w' r) = FILLED) (orders bt))"
       "position_size bt' = foldl (\<lambda>z r. if is_buy (objs w r) then z + quantity (objs w r)
                               else z - quantity (objs w r)) (position_size bt)
          (filter (\<lambda>r. status (objs w' r) = FILLED) (orders bt))" and
    s: "\<forall>r\<in>set (orders bt). status (objs w' r) = FILLED \<longrightarrow> is_buy (objs w r) \<or> is_sell (objs w r)" and
    c: "\<forall>r\<in>set (orders bt). is_done (objs w' r) \<or> created_at (objs w' r) \<noteq> None" and
    d: "distinct (orders bt')" and
    wf: "\<forall>r\<in>set (orders bt'). well_formed (objs w' r) \<and> \<not> is_done (objs w' r)"
    by blast
  from t obtain b1 where run: "run_orders (w, bt) (orders bt) ts p = Inr (w', b1)"
    by (auto simp: run_tick_def split: sum.splits)
  have pre: "\<forall>r\<in>set (orders bt). well_formed (objs w r) \<and> status (objs w r) \<noteq> FILLED"
    using assms(2) by (auto simp: is_done_def)
  have ob: "observe_all w (orders bt) ts p = Inr w'"
    using run_orders_observe_all[OF run] by simp
  have pos: "\<forall>xs r ys. orders bt = xs @ r # ys \<longrightarrow>
         (\<exists>v0 b0 v b.
            run_orders (w, bt) xs ts p = Inr (v0, b0) \<and> observe_all w xs ts p = Inr v0 \<and>
            Order_update v0 r ts p = Inr v \<and>
            run_orders (w, bt) (xs @ [r]) ts p = Inr (v, b) \<and>
            (status (objs w' r) = FILLED \<longleftrightarrow> status (objs v r) = FILLED) \<and>
            trade_log b = trade_log b0 @
              (if status (objs v r) = FILLED
               then [\<lparr> trade_timestamp = Some ts, trade_type = side (objs w r),
                       trade_price = Some p \<rparr>]
               else []) \<and>
            cash b = (if status (objs v r) = FILLED
                      then (if is_buy (objs w r) then cash b0 - p * quantity (objs w r)
                            else cash b0 + p * quantity (objs w r))
                      else cash b0) \<and>
            position_size b = (if status (objs v r) = FILLED
                      then (if is_buy (objs w r) then position_size b0 + quantity (objs w r)
                            else position_size b0 - quantity (objs w r))
                      else position_size b0))"
  proof (intro allI impI)
    fix xs r ys assume sp: "orders bt = xs @ r # ys"
    from run_orders_positions[OF assms(1) pre run sp]
    show "\<exists>v0 b0 v b.
            run_orders (w, bt) xs ts p = Inr (v0, b0) \<and> observe_all w xs ts p = Inr v0 \<and>
            Order_update v0 r ts p = Inr v \<and>
            run_orders (w, bt) (xs @ [r]) ts p = Inr (v, b) \<and>
            (status (objs w' r) = FILLED \<longleftrightarrow> status (objs v r) = FILLED) \<and>
            trade_log b = trade_log b0 @
              (if status (objs v r) = FILLED
               then [\<lparr> trade_timestamp = Some ts, trade_type = side (objs w r),
                       trade_price = Some p \<rparr>]
               else []) \<and>
            cash b = (if status (objs v r) = FILLED
                      then (if is_buy (objs w r) then cash b0 - p * quantity (objs w r)
                            else cash b0 + p * quantity (objs w r))
                      else cash b0) \<and>
            position_size b = (if status (objs v r) = FILLED
                      then (if is_buy (objs w r) then position_size b0 + quantity (objs w r)
                            else position_size b0 - quantity (objs w r))
                      else position_size b0)"
      by blast
  qed
  have ff: "\<forall>r\<in>set (orders bt). status (objs w' r) = FILLED \<longrightarrow>
          filled_price (objs w' r) = Some p \<and> filled_at (objs w' r) = Some ts \<and>
          (is_buy (objs w r) \<or> is_sell (objs w r))"
  proof
    fix r assume r: "r \<in> set (orders bt)"
    with assms(2) have "status (objs (fst (w, bt)) r) \<noteq> FILLED" by (auto simp: is_done_def)
    from run_orders_fill_fields[OF run this] s r
    show "status (objs w' r) = FILLED \<longrightarrow>
          filled_price (objs w' r) = Some p \<and> filled_at (objs w' r) = Some ts \<and>
          (is_buy (objs w r) \<or> is_sell (objs w r))" by simp
  qed
  have none: "(\<forall>r\<in>set (orders bt). status (objs w' r) \<noteq> FILLED) \<longrightarrow>
          trade_log bt' = trade_log bt \<and> cash bt' = cash bt \<and> position_size bt' = position_size bt"
  proof
    assume "\<forall>r\<in>set (orders bt). status (objs w' r) \<noteq> FILLED"
    then have "filter (\<lambda>r. status (objs w' r) = FILLED) (orders bt) = []"
      by (simp add: filter_empty_conv)
    with l show "trade_log bt' = trade_log bt \<and> cash bt' = cash bt \<and> position_size bt' = position_size bt"
      by simp
  qed
  show ?thesis
    by (intro exI[of _ w'] exI[of _ bt'] conjI)
      (rule t, rule ob, rule pos, rule c, rule ff, rule l(1), rule l(2), rule l(3), rule none,
       rule o, rule d, rule wf)
qed

theorem replay_tick_ledger_witness:
  "distinct (orders pair_backtester) \<and>
   well_formed (objs tie_world 0) \<and> \<not> is_done (objs tie_world 0) \<and>
   well_formed (objs tie_world 1) \<and> \<not> is_done (objs tie_world 1) \<and>
   (\<exists>w' bt'. run_tick (tie_world, pair_backtester) (1, 100) = Inr (w', bt') \<and>
      observe_all tie_world [0, 1] 1 100 = Inr w' \<and>
      status (objs w' 0) = FILLED \<and> status (objs w' 1) = CANCELLED \<and>
      cash bt' = 10000 \<and> position_size bt' = 0 \<and>
      trade_log bt' = [\<lparr> trade_timestamp = Some 1, trade_type = ''SELL'', trade_price = Some 100 \<rparr>] \<and>
      orders bt' = [] \<and>
      orders bt' = filter (\<lambda>r. \<not> is_done (objs w' r)) (orders pair_backtester)) \<and>
   (\<exists>w''. observe_all tie_world [1, 0] 1 100 = Inr w'' \<and>
      status (objs w'' 1) = FILLED \<and> status (objs w'' 0) = CANCELLED)"
proof -
  have wf: "well_formed (objs tie_world 0)" "\<not> is_done (objs tie_world 0)"
    "well_formed (objs tie_world 1)" "\<not> is_done (objs tie_world 1)"
    using tie_open_set(2) by (simp_all add: pair_backtester_def)
  from replay_tick_ledger[OF tie_open_set, of 1 100] obtain w' bt' where
    t: "run_tick (tie_world, pair_backtester) (1, 100) = Inr (w', bt')" and
    ob: "observe_all tie_world (orders pair_backtester) 1 100 = Inr w'" and
    o: "orders bt' = filter (\<lambda>r. \<not> is_done (objs w' r)) (orders pair_backtester)"
    by blast
  from ob have ob': "observe_all tie_world [0, 1] 1 100 = Inr w'"
    by (simp add: pair_backtester_def)
  from tie_tick t have f:
    "status (objs w' 0) = FILLED" "status (objs w' 1) = CANCELLED"
    "cash bt' = 10000" "position_size bt' = 0"
    "trade_log bt' = [\<lparr> trade_timestamp = Some 1, trade_type = ''SELL'', trade_price = Some 100 \<rparr>]"
    "orders bt' = []"
    by auto
  from t ob' o f wf tie_open_set(1) tie_reversed show ?thesis by blast
qed

end
